theory Spec2Isabelle
  imports Complex_Main
begin

section \<open>JavaScript numbers as far as the compressor uses them\<close>

text \<open>
  \<^verbatim>\<open>targetSizeKB\<close> is \<^verbatim>\<open>null\<close> or the result of \<^verbatim>\<open>parseFloat\<close>: a double. The code only
  tests it for truthiness, multiplies it by 1024 and compares a buffer length with the
  product. Multiplying a double by 1024 is exact (a power of two) unless it overflows to
  Infinity, and a comparison with a buffer length gives the same answer for the overflowed
  and the exact product, so a finite double is modelled by the rational it denotes.
  \<^verbatim>\<open>null\<close> is \<open>None\<close> of \<open>jsnum option\<close>.
\<close>

datatype jsnum = NaN | NegInf | Fin rat | PosInf

fun truthy :: "jsnum \<Rightarrow> bool" where
  "truthy NaN = False"
| "truthy (Fin r) = (r \<noteq> 0)"
| "truthy NegInf = True"
| "truthy PosInf = True"

fun times1024 :: "jsnum \<Rightarrow> jsnum" where
  "times1024 NaN = NaN"
| "times1024 (Fin r) = Fin (r * 1024)"
| "times1024 NegInf = NegInf"
| "times1024 PosInf = PosInf"

text \<open>\<^verbatim>\<open>n <= targetBytes\<close> for a length \<open>n\<close>.\<close>

fun length_le :: "nat \<Rightarrow> jsnum \<Rightarrow> bool" where
  "length_le n NaN = False"
| "length_le n (Fin r) = (of_nat n \<le> r)"
| "length_le n NegInf = False"
| "length_le n PosInf = True"

subsection \<open>\<^verbatim>\<open>Math.floor(width * 0.70)\<close> in double arithmetic\<close>

text \<open>
  The literal \<^verbatim>\<open>0.70\<close> is the double \<open>6305039478318694 / 2^53\<close>, a little below 7/10.
  A width is a whole number below \<open>2^53\<close>, so the exact product is \<open>width * 6305039478318694\<close>
  in units of \<open>2^-53\<close>; the multiplication rounds it to 53 significant bits, ties to even,
  and \<^verbatim>\<open>Math.floor\<close> drops the fraction. The rounding matters: \<^verbatim>\<open>Math.floor(90 * 0.70)\<close>
  is 62, not 63.
\<close>

definition mant070 :: nat where
  "mant070 = 6305039478318694"

fun bitlen :: "nat \<Rightarrow> nat" where
  "bitlen n = (if n = 0 then 0 else Suc (bitlen (n div 2)))"

declare bitlen.simps [simp del]

definition round53 :: "nat \<Rightarrow> nat" where
  "round53 p =
     (let n = bitlen p in
      if n \<le> 53 then p
      else let s = n - 53; q = p div 2 ^ s; r = p mod 2 ^ s
           in (if 2 ^ s < 2 * r \<or> (2 * r = 2 ^ s \<and> odd q) then q + 1 else q) * 2 ^ s)"

definition floor_mul070 :: "nat \<Rightarrow> nat" where
  "floor_mul070 width = round53 (width * mant070) div 2 ^ 53"

text \<open>The step strictly shrinks every positive width, which is what ends the resize loop.\<close>

lemma bitlen_less: "n < 2 ^ bitlen n"
proof (induction n rule: bitlen.induct)
  case (1 n)
  show ?case
  proof (cases "n = 0")
    case True
    then show ?thesis by (simp add: bitlen.simps)
  next
    case False
    with 1 have "n div 2 < 2 ^ bitlen (n div 2)" by simp
    then have "n < 2 * 2 ^ bitlen (n div 2)" by linarith
    with False show ?thesis by (subst bitlen.simps) simp
  qed
qed

lemma bitlen_upper: "n < 2 ^ k \<Longrightarrow> bitlen n \<le> k"
proof (induction n arbitrary: k rule: bitlen.induct)
  case (1 n)
  show ?case
  proof (cases "n = 0")
    case True
    then show ?thesis by (simp add: bitlen.simps)
  next
    case False
    with 1(2) obtain j where k: "k = Suc j" by (cases k) auto
    with 1(2) have "n div 2 < 2 ^ j" by simp
    with 1(1) False have "bitlen (n div 2) \<le> j" by simp
    with False k show ?thesis by (subst bitlen.simps) simp
  qed
qed

lemma bitlen_pow_le: "0 < n \<Longrightarrow> 2 ^ bitlen n \<le> 2 * n"
proof (induction n rule: bitlen.induct)
  case (1 n)
  show ?case
  proof (cases "n div 2 = 0")
    case True
    with 1(2) have "n = 1" by (simp add: div_eq_0_iff)
    then show ?thesis by (simp add: bitlen.simps)
  next
    case False
    with 1 have "2 ^ bitlen (n div 2) \<le> 2 * (n div 2)" by simp
    then have "2 * 2 ^ bitlen (n div 2) \<le> 2 * n" by linarith
    with 1(2) show ?thesis by (subst bitlen.simps) simp
  qed
qed

lemma round53_le: "round53 p \<le> p + 2 ^ (bitlen p - 53)"
proof -
  have "p div 2 ^ s * 2 ^ s \<le> p" for s :: nat by simp
  then show ?thesis
    by (auto simp: round53_def Let_def add_mult_distrib intro: trans_le_add1)
qed

lemma floor_mul070_zero: "floor_mul070 0 = 0"
  by (simp add: floor_mul070_def round53_def bitlen.simps)

lemma floor_mul070_less:
  assumes "0 < w"
  shows "floor_mul070 w < w"
proof -
  let ?p = "w * mant070"
  have p_lt: "?p < 2 ^ bitlen w * 2 ^ 53"
  proof -
    have "?p < w * 2 ^ 53" using assms by (simp add: mant070_def)
    also have "\<dots> \<le> 2 ^ bitlen w * 2 ^ 53"
      using bitlen_less [of w] by simp
    finally show ?thesis .
  qed
  then have "bitlen ?p \<le> bitlen w + 53"
    by (intro bitlen_upper) (simp add: power_add)
  then have "(2::nat) ^ (bitlen ?p - 53) \<le> 2 ^ bitlen w"
    by (intro power_increasing) auto
  also have "\<dots> \<le> 2 * w" using assms by (rule bitlen_pow_le)
  finally have "round53 ?p \<le> ?p + 2 * w"
    using round53_le [of ?p] by linarith
  also have "\<dots> < w * 2 ^ 53" using assms by (simp add: mant070_def)
  finally have "round53 ?p div 2 ^ 53 < w"
    by (simp add: less_mult_imp_div_less)
  then show ?thesis by (simp add: floor_mul070_def)
qed

section \<open>The artifact store\<close>

text \<open>
  Two flat directories, \<^verbatim>\<open>temp/uploads\<close> and \<^verbatim>\<open>temp/processed\<close> under \<^verbatim>\<open>__dirname\<close>. The
  value of \<^verbatim>\<open>__dirname\<close> belongs to the deployment, not to the source; \<^verbatim>\<open>/app\<close> is taken.

  A path is what \<^verbatim>\<open>path.join\<close> returns: an absolute, normalised path. It is either a file
  directly inside one of the two directories, given by the directory and the name of the
  entry, or some other path, given by its segments from the root. The name of an entry is
  a single segment: it is not empty, not \<^verbatim>\<open>.\<close> or \<^verbatim>\<open>..\<close>, and has no separator in it. The
  separator is \<^verbatim>\<open>/\<close> (POSIX).
\<close>

definition plain :: "string \<Rightarrow> bool" where
  "plain n = (n \<noteq> [] \<and> n \<noteq> ''.'' \<and> n \<noteq> ''..'' \<and> CHR ''/'' \<notin> set n)"

typedef entry = "{n. plain n}"
  morphisms entry_name entry_named
  by (rule exI [of _ "''a''"]) (simp add: plain_def)

datatype dir = UPLOAD_DIR | PROCESSED_DIR

datatype path = Inside dir entry | Other "string list"

definition dirname :: "string list" where
  "dirname = [''app'']"

fun dir_segments :: "dir \<Rightarrow> string list" where
  "dir_segments UPLOAD_DIR = dirname @ [''temp'', ''uploads'']"
| "dir_segments PROCESSED_DIR = dirname @ [''temp'', ''processed'']"

text \<open>
  \<^verbatim>\<open>path.join(DIR, name)\<close>. The name is cut at the separators and its segments are resolved
  one by one from the directory: an empty segment and \<^verbatim>\<open>.\<close> change nothing, \<^verbatim>\<open>..\<close> drops the
  last segment (and stays at the root), any other segment is appended. A name that ends
  in a separator keeps it, and such a path names no file; it is an \<open>Other\<close> path with an
  empty last segment.
\<close>

fun split_path :: "string \<Rightarrow> string list" where
  "split_path [] = [[]]"
| "split_path (c # cs) =
     (if c = CHR ''/'' then [] # split_path cs
      else (case split_path cs of [] \<Rightarrow> [[c]] | seg # segs \<Rightarrow> (c # seg) # segs))"

definition resolve_segment :: "string list \<Rightarrow> string \<Rightarrow> string list" where
  "resolve_segment stack seg =
     (if seg = [] \<or> seg = ''.'' then stack
      else if seg = ''..'' then butlast stack
      else stack @ [seg])"

definition locate :: "string list \<Rightarrow> path" where
  "locate segs =
     (if segs \<noteq> [] \<and> butlast segs = dir_segments UPLOAD_DIR \<and> plain (last segs)
      then Inside UPLOAD_DIR (entry_named (last segs))
      else if segs \<noteq> [] \<and> butlast segs = dir_segments PROCESSED_DIR \<and> plain (last segs)
      then Inside PROCESSED_DIR (entry_named (last segs))
      else Other segs)"

definition path_join :: "dir \<Rightarrow> string \<Rightarrow> path" where
  "path_join d name =
     (let segs = foldl resolve_segment (dir_segments d) (split_path name)
      in if name \<noteq> [] \<and> last name = CHR ''/'' then Other (segs @ [[]]) else locate segs)"

fun basename :: "path \<Rightarrow> string" where
  "basename (Inside d n) = entry_name n"
| "basename (Other segs) =
     (if filter (\<lambda>seg. seg \<noteq> []) segs = [] then []
      else last (filter (\<lambda>seg. seg \<noteq> []) segs))"

fun segments_of :: "path \<Rightarrow> string list" where
  "segments_of (Inside d n) = dir_segments d @ [entry_name n]"
| "segments_of (Other segs) = segs"

definition path_string :: "path \<Rightarrow> string" where
  "path_string p =
     (if segments_of p = [] then ''/''
      else concat (map (\<lambda>seg. CHR ''/'' # seg) (segments_of p)))"

text \<open>
  The store is an association list from paths to files, keyed by the paths that
  \<^verbatim>\<open>path.join\<close> returns; it holds regular files only. The two directories are there
  throughout (the server creates them when it starts) and are not entries of the store. A file has its bytes and its
  modification time in milliseconds. \<open>clock\<close> is what \<^verbatim>\<open>Date.now()\<close> returns and what a
  write stamps on the file. \<open>trace\<close> records the calls to the codec, to the rendering
  engine and to \<^verbatim>\<open>console.error\<close> in the callback of \<^verbatim>\<open>deleteFile\<close>. \<open>pending\<close> holds the
  \<^verbatim>\<open>fs.unlink\<close> operations that have been started and have not finished, oldest first.
\<close>

text \<open>A buffer is its list of bytes; the code looks at nothing but the length.\<close>

type_synonym buffer = "nat list"

record artifact =
  content :: buffer
  mtimeMs :: rat

datatype errno = ENOENT | EPERM

datatype settings = Jpeg int | Png "int option" nat | Webp int | Unchanged

datatype event =
    Preprocess bool
  | GetBuffer "nat option" int
  | ToFile settings
  | RunGs "string list"
  | ConsoleError path errno

record world =
  files :: "(path \<times> artifact) list"
  clock :: rat
  trace :: "event list"
  pending :: "path list"

definition existsSync :: "world \<Rightarrow> path \<Rightarrow> bool" where
  "existsSync w p = (map_of (files w) p \<noteq> None)"

definition statSync :: "world \<Rightarrow> path \<Rightarrow> errno + artifact" where
  "statSync w p = (case map_of (files w) p of None \<Rightarrow> Inl ENOENT | Some f \<Rightarrow> Inr f)"

definition readFile :: "world \<Rightarrow> path \<Rightarrow> errno + buffer" where
  "readFile w p = (case map_of (files w) p of None \<Rightarrow> Inl ENOENT | Some f \<Rightarrow> Inr (content f))"

definition remove_entry :: "path \<Rightarrow> (path \<times> artifact) list \<Rightarrow> (path \<times> artifact) list" where
  "remove_entry p fs = filter (\<lambda>e. fst e \<noteq> p) fs"

text \<open>
  The unlink system call (\<^verbatim>\<open>fs.unlinkSync\<close>, and what a started \<^verbatim>\<open>fs.unlink\<close> does when it runs):
  the error it reports, and the store afterwards. In this store the only failure is that
  the path is absent.
\<close>

definition unlink :: "path \<Rightarrow> world \<Rightarrow> errno option \<times> world" where
  "unlink p w =
     (if existsSync w p then (None, w\<lparr>files := remove_entry p (files w)\<rparr>)
      else (Some ENOENT, w))"

definition writeFileSync :: "path \<Rightarrow> buffer \<Rightarrow> world \<Rightarrow> world" where
  "writeFileSync p buf w =
     w\<lparr>files := (p, \<lparr>content = buf, mtimeMs = clock w\<rparr>) # remove_entry p (files w)\<rparr>"

definition copyFileSync :: "path \<Rightarrow> path \<Rightarrow> world \<Rightarrow> errno + world" where
  "copyFileSync src dst w =
     (case readFile w src of Inl e \<Rightarrow> Inl e | Inr buf \<Rightarrow> Inr (writeFileSync dst buf w))"

text \<open>\<^verbatim>\<open>fs.readdir\<close>: the names of the entries of one of the two directories.\<close>

definition readdir :: "world \<Rightarrow> dir \<Rightarrow> string list" where
  "readdir w d =
     concat (map (\<lambda>e. case fst e of
                         Inside d' n \<Rightarrow> if d' = d then [entry_name n] else []
                       | Other segs \<Rightarrow> [])
               (files w))"

subsection \<open>cleanup.js\<close>

text \<open>
  \<^verbatim>\<open>deleteFile(filePath)\<close>. The argument is \<open>None\<close> for a falsy \<^verbatim>\<open>filePath\<close> (undefined, null or
  the empty string). \<^verbatim>\<open>fs.unlink\<close> is asynchronous: \<^verbatim>\<open>deleteFile\<close> starts the operation and
  returns, with the file still in place. \<open>unlink_done\<close> is the operation running to its
  end, callback included (lines 9 to 13): the callback logs every error but ENOENT and
  raises nothing. \<open>run_pending\<close> lets every started unlink finish.
\<close>

definition deleteFile :: "path option \<Rightarrow> world \<Rightarrow> world" where
  "deleteFile filePath w =
     (case filePath of
        None \<Rightarrow> w
      | Some p \<Rightarrow> w\<lparr>pending := pending w @ [p]\<rparr>)"

definition unlink_done :: "path \<Rightarrow> world \<Rightarrow> world" where
  "unlink_done p w =
     (case unlink p w of
        (Some err, w') \<Rightarrow>
          (if err \<noteq> ENOENT then w'\<lparr>trace := trace w' @ [ConsoleError p err]\<rparr> else w')
      | (None, w') \<Rightarrow> w')"

definition run_pending :: "world \<Rightarrow> world" where
  "run_pending w = fold unlink_done (pending w) (w\<lparr>pending := []\<rparr>)"

definition deleteFiles :: "path option list \<Rightarrow> world \<Rightarrow> world" where
  "deleteFiles filePaths w = fold deleteFile filePaths w"

section \<open>compression.js: images\<close>

text \<open>
  The codec (sharp) is opaque. \<open>metadata\<close> reads format and size, \<open>toBuffer\<close> is
  \<^verbatim>\<open>sharp(inputPath).toBuffer()\<close> (with the resize into 4000 by 4000 when its flag is set):
  it decodes the upload and encodes it again in its own format, with the defaults of the
  format. \<open>encode\<close> is one run of a pipeline with an optional resize width and the output
  settings. \<open>None\<close> is a rejected promise. Each of the three output calls is logged:
  \<open>Preprocess\<close> for \<open>toBuffer\<close>, \<open>ToFile\<close> and \<open>GetBuffer\<close> for \<open>encode\<close>.
\<close>

record meta =
  format :: string
  width :: nat
  height :: nat

record codec =
  metadata :: "buffer \<Rightarrow> meta option"
  toBuffer :: "bool \<Rightarrow> buffer \<Rightarrow> buffer option"
  encode :: "nat option \<Rightarrow> settings \<Rightarrow> buffer \<Rightarrow> buffer option"

datatype error = SharpError | FsError errno | GsError

text \<open>\<^verbatim>\<open>!targetSizeKB\<close> is false exactly when \<open>supplied\<close> returns the target.\<close>

definition supplied :: "jsnum option \<Rightarrow> jsnum option" where
  "supplied targetSizeKB =
     (case targetSizeKB of None \<Rightarrow> None | Some t \<Rightarrow> if truthy t then Some t else None)"

text \<open>The settings of the no-target pipeline (lines 32 to 34).\<close>

definition preset :: "string \<Rightarrow> settings" where
  "preset fmt =
     (if fmt = ''jpeg'' \<or> fmt = ''jpg'' then Jpeg 70
      else if fmt = ''png'' then Png None 8
      else if fmt = ''webp'' then Webp 65
      else Unchanged)"

text \<open>The settings \<^verbatim>\<open>getBuffer\<close> chooses for a quality (lines 52 to 58).\<close>

definition quality_settings :: "string \<Rightarrow> int \<Rightarrow> settings" where
  "quality_settings fmt q =
     (if fmt = ''png'' then Png (Some q) 9
      else if fmt = ''webp'' then Webp q
      else Jpeg q)"

text \<open>\<^verbatim>\<open>getBuffer(buf, w, q)\<close>; \<^verbatim>\<open>if (w)\<close> skips the resize for null and for 0.\<close>

definition getBuffer ::
  "codec \<Rightarrow> string \<Rightarrow> buffer \<Rightarrow> nat option \<Rightarrow> int \<Rightarrow> world \<Rightarrow> buffer option \<times> world" where
  "getBuffer c fmt buf w q s =
     (encode c (case w of None \<Rightarrow> None | Some n \<Rightarrow> if n = 0 then None else Some n)
        (quality_settings fmt q) buf,
      s\<lparr>trace := trace s @ [GetBuffer w q]\<rparr>)"

text \<open>
  The binary search over the quality, written twice in the source (lines 70 to 80 at the
  native resolution, lines 102 to 111 at a fixed width): \<open>best\<close> is \<^verbatim>\<open>bestBuffer\<close> there
  and \<^verbatim>\<open>finalBuf\<close> here.
\<close>

function quality_search ::
  "codec \<Rightarrow> string \<Rightarrow> buffer \<Rightarrow> nat option \<Rightarrow> jsnum \<Rightarrow> int \<Rightarrow> int \<Rightarrow> buffer \<Rightarrow> world
     \<Rightarrow> (error + buffer) \<times> world" where
  "quality_search c fmt cur w targetBytes l r best s =
     (if l \<le> r then
        (let mid = (l + r) div 2 in
         case getBuffer c fmt cur w mid s of
           (None, s') \<Rightarrow> (Inl SharpError, s')
         | (Some buf, s') \<Rightarrow>
             if length_le (length buf) targetBytes
             then quality_search c fmt cur w targetBytes (mid + 1) r buf s'
             else quality_search c fmt cur w targetBytes l (mid - 1) best s')
      else (Inr best, s))"
  by pat_completeness auto
termination
  by (relation "measure (\<lambda>(c, fmt, cur, w, targetBytes, l, r, best, s). nat (r + 1 - l))") auto

declare quality_search.simps [simp del]

text \<open>
  The resize loop (lines 92 to 126). \<open>w0\<close> is \<^verbatim>\<open>width\<close> on entry to an iteration and
  \<open>w1\<close> is \<^verbatim>\<open>width\<close> after lines 93 and 94.
\<close>

function resize_loop ::
  "codec \<Rightarrow> string \<Rightarrow> buffer \<Rightarrow> jsnum \<Rightarrow> nat \<Rightarrow> world \<Rightarrow> (error + buffer) \<times> world" where
  "resize_loop c fmt cur targetBytes w0 s =
     (let w1 = (if floor_mul070 w0 < 1 then 1 else floor_mul070 w0) in
      case getBuffer c fmt cur (Some w1) 50 s of
        (None, s1) \<Rightarrow> (Inl SharpError, s1)
      | (Some buf, s1) \<Rightarrow>
          if length_le (length buf) targetBytes
          then quality_search c fmt cur (Some w1) targetBytes 1 100 buf s1
          else
            (case getBuffer c fmt cur (Some w1) 1 s1 of
               (None, s2) \<Rightarrow> (Inl SharpError, s2)
             | (Some bufLow, s2) \<Rightarrow>
                 if length_le (length bufLow) targetBytes then (Inr bufLow, s2)
                 else if w1 = 1 then
                   (case getBuffer c fmt cur (Some 1) 1 s2 of
                      (None, s3) \<Rightarrow> (Inl SharpError, s3)
                    | (Some b, s3) \<Rightarrow> (Inr b, s3))
                 else resize_loop c fmt cur targetBytes w1 s2))"
  by pat_completeness auto
termination
proof (relation "measure (\<lambda>(c, fmt, cur, targetBytes, w0, s). w0)")
  show "wf (measure (\<lambda>(c, fmt, cur, targetBytes, w0, s). w0))" by simp
next
  fix c :: codec and fmt :: string and cur :: buffer and targetBytes :: jsnum
    and w0 w1 :: nat and s s2 :: world
  assume w1: "w1 = (if floor_mul070 w0 < 1 then 1 else floor_mul070 w0)" and ne: "w1 \<noteq> 1"
  from w1 ne have pos: "0 < floor_mul070 w0" and eq: "w1 = floor_mul070 w0"
    by (auto split: if_splits)
  from pos have "0 < w0"
    using floor_mul070_zero by (cases "w0 = 0") simp_all
  then have "floor_mul070 w0 < w0" by (rule floor_mul070_less)
  with eq show "((c, fmt, cur, targetBytes, w1, s2), (c, fmt, cur, targetBytes, w0, s))
      \<in> measure (\<lambda>(c, fmt, cur, targetBytes, w0, s). w0)"
    by simp
qed

declare resize_loop.simps [simp del]

text \<open>
  \<^verbatim>\<open>compressBufferRecursive\<close>. Its \<^verbatim>\<open>input\<close> is always a Buffer (\<^verbatim>\<open>compressImage\<close> passes the
  result of \<^verbatim>\<open>toBuffer\<close>), so the conversion of lines 43 to 45 never runs and
  \<^verbatim>\<open>currentBuffer\<close> is \<open>input\<close>. The width the codec reports is a whole number.
\<close>

definition compressBufferRecursive ::
  "codec \<Rightarrow> buffer \<Rightarrow> path \<Rightarrow> string \<Rightarrow> jsnum option \<Rightarrow> world \<Rightarrow> (error + path) \<times> world" where
  "compressBufferRecursive c input outputPath fmt targetSizeKB s =
     (case supplied targetSizeKB of
        None \<Rightarrow>
          (let s1 = s\<lparr>trace := trace s @ [ToFile (preset fmt)]\<rparr> in
           case encode c None (preset fmt) input of
             None \<Rightarrow> (Inl SharpError, s1)
           | Some out \<Rightarrow> (Inr outputPath, writeFileSync outputPath out s1))
      | Some t \<Rightarrow>
          (let targetBytes = times1024 t in
           case getBuffer c fmt input None 1 s of
             (None, s1) \<Rightarrow> (Inl SharpError, s1)
           | (Some lowQBuffer, s1) \<Rightarrow>
               if length_le (length lowQBuffer) targetBytes then
                 (case quality_search c fmt input None targetBytes 1 100 lowQBuffer s1 of
                    (Inl e, s2) \<Rightarrow> (Inl e, s2)
                  | (Inr bestBuffer, s2) \<Rightarrow>
                      (Inr outputPath, writeFileSync outputPath bestBuffer s2))
               else
                 (case metadata c input of
                    None \<Rightarrow> (Inl SharpError, s1)
                  | Some m \<Rightarrow>
                      (case resize_loop c fmt input targetBytes (width m) s1 of
                         (Inl e, s2) \<Rightarrow> (Inl e, s2)
                       | (Inr bestBuffer, s2) \<Rightarrow>
                           (Inr outputPath, writeFileSync outputPath bestBuffer s2)))))"

text \<open>
  Lines 14 to 23 of \<^verbatim>\<open>compressImage\<close>: the format the codec reports for the upload and
  the buffer the search works on, resized into 4000 by 4000 when a side exceeds 4000.
\<close>

definition needs_resize :: "meta \<Rightarrow> bool" where
  "needs_resize m = (4000 < width m \<or> 4000 < height m)"

definition compressImage ::
  "codec \<Rightarrow> path \<Rightarrow> dir \<Rightarrow> jsnum option \<Rightarrow> world \<Rightarrow> (error + path) \<times> world" where
  "compressImage c inputPath outputDir targetSizeKB s =
     (let filename = basename inputPath; outputPath = path_join outputDir filename in
      case readFile s inputPath of
        Inl e \<Rightarrow> (Inl SharpError, s)
      | Inr raw \<Rightarrow>
          (case metadata c raw of
             None \<Rightarrow> (Inl SharpError, s)
           | Some m \<Rightarrow>
               (let s1 = s\<lparr>trace := trace s @ [Preprocess (needs_resize m)]\<rparr> in
                case toBuffer c (needs_resize m) raw of
                  None \<Rightarrow> (Inl SharpError, s1)
                | Some inputBuffer \<Rightarrow>
                    compressBufferRecursive c inputBuffer outputPath (format m) targetSizeKB s1)))"

section \<open>compression.js: PDF documents\<close>

text \<open>
  Ghostscript is opaque. \<open>version_probe\<close> is \<^verbatim>\<open>spawn(cmd, ['--version'])\<close>; \<open>render\<close> is one
  run of the command with its arguments on the bytes of the input file (\<open>None\<close> when the
  file is missing): how the process ended, and the file it left at the output path, if any.
  A run may end badly and still leave a file.
\<close>

datatype proc_result = Closed int | SpawnError

record engine =
  version_probe :: "string \<Rightarrow> proc_result"
  render :: "string \<Rightarrow> string list \<Rightarrow> buffer option \<Rightarrow> proc_result \<times> buffer option"

fun first_working :: "engine \<Rightarrow> string list \<Rightarrow> string option" where
  "first_working e [] = None"
| "first_working e (cmd # cmds) =
     (if version_probe e cmd = Closed 0 then Some cmd else first_working e cmds)"

definition checkGhostscript :: "engine \<Rightarrow> string option" where
  "checkGhostscript e = first_working e [''gswin64c'', ''gswin32c'', ''gs'']"

text \<open>
  \<^verbatim>\<open>runGs(args)\<close>: the promise resolves when the process closes with code 0 and rejects
  otherwise. The two paths are the last two arguments; they are passed again as paths so
  that the run can read the one and write the other.
\<close>

definition runGs ::
  "engine \<Rightarrow> string \<Rightarrow> string list \<Rightarrow> path \<Rightarrow> path \<Rightarrow> world \<Rightarrow> (error + unit) \<times> world" where
  "runGs e gsStatus argv inputPath outputPath s =
     (let s1 = s\<lparr>trace := trace s @ [RunGs argv]\<rparr>;
          ran = render e gsStatus argv
                  (case readFile s inputPath of Inl err \<Rightarrow> None | Inr b \<Rightarrow> Some b);
          s2 = (case snd ran of None \<Rightarrow> s1 | Some b \<Rightarrow> writeFileSync outputPath b s1)
      in (if fst ran = Closed 0 then Inr () else Inl GsError, s2))"

record strategy =
  name :: string
  args :: "string list"

definition strategies :: "strategy list" where
  "strategies =
     [\<lparr>name = ''ebook'', args = [''-dPDFSETTINGS=/ebook'']\<rparr>,
      \<lparr>name = ''screen'', args = [''-dPDFSETTINGS=/screen'']\<rparr>,
      \<lparr>name = ''low-res'', args =
         [''-dPDFSETTINGS=/screen'',
          ''-dColorImageResolution=50'',
          ''-dGrayImageResolution=50'',
          ''-dMonoImageResolution=50'',
          ''-dDownsampleColorImages=true'',
          ''-dDownsampleGrayImages=true'',
          ''-dDownsampleMonoImages=true'']\<rparr>]"

definition strategy_args :: "strategy \<Rightarrow> path \<Rightarrow> path \<Rightarrow> string list" where
  "strategy_args strat outputPath inputPath =
     [''-sDEVICE=pdfwrite'', ''-dCompatibilityLevel=1.4''] @ args strat @
     [''-dNOPAUSE'', ''-dQUIET'', ''-dBATCH'',
      ''-sOutputFile='' @ path_string outputPath, path_string inputPath]"

definition default_args :: "path \<Rightarrow> path \<Rightarrow> string list" where
  "default_args outputPath inputPath =
     [''-sDEVICE=pdfwrite'', ''-dCompatibilityLevel=1.4'',
      ''-dPDFSETTINGS=/screen'', ''-dNOPAUSE'', ''-dQUIET'', ''-dBATCH'',
      ''-sOutputFile='' @ path_string outputPath, path_string inputPath]"

text \<open>
  The loop over the strategies (lines 190 to 217). The result is \<open>True\<close> when the loop
  returned \<^verbatim>\<open>outputPath\<close> from inside (line 211) and \<open>False\<close> when it ran off its end.
  Whatever is thrown inside the \<^verbatim>\<open>try\<close> is caught and the loop goes on.
\<close>

fun try_strategies ::
  "engine \<Rightarrow> string \<Rightarrow> strategy list \<Rightarrow> path \<Rightarrow> path \<Rightarrow> jsnum \<Rightarrow> world \<Rightarrow> bool \<times> world" where
  "try_strategies e gsStatus [] inputPath outputPath targetBytes s = (False, s)"
| "try_strategies e gsStatus (strat # rest) inputPath outputPath targetBytes s =
     (case (if existsSync s outputPath then unlink outputPath s else (None, s)) of
        (Some err, s1) \<Rightarrow> try_strategies e gsStatus rest inputPath outputPath targetBytes s1
      | (None, s1) \<Rightarrow>
          (case runGs e gsStatus (strategy_args strat outputPath inputPath)
                  inputPath outputPath s1 of
             (Inl err, s2) \<Rightarrow> try_strategies e gsStatus rest inputPath outputPath targetBytes s2
           | (Inr u, s2) \<Rightarrow>
               (case statSync s2 outputPath of
                  Inl err \<Rightarrow> try_strategies e gsStatus rest inputPath outputPath targetBytes s2
                | Inr stats \<Rightarrow>
                    if length_le (length (content stats)) targetBytes then (True, s2)
                    else try_strategies e gsStatus rest inputPath outputPath targetBytes s2)))"

definition copy_source :: "path \<Rightarrow> path \<Rightarrow> world \<Rightarrow> (error + path) \<times> world" where
  "copy_source inputPath outputPath s =
     (case copyFileSync inputPath outputPath s of
        Inl err \<Rightarrow> (Inl (FsError err), s)
      | Inr s' \<Rightarrow> (Inr outputPath, s'))"

definition compressPdf ::
  "engine \<Rightarrow> path \<Rightarrow> dir \<Rightarrow> jsnum option \<Rightarrow> world \<Rightarrow> (error + path) \<times> world" where
  "compressPdf e inputPath outputDir targetSizeKB s =
     (let filename = basename inputPath; outputPath = path_join outputDir filename in
      case checkGhostscript e of
        None \<Rightarrow> copy_source inputPath outputPath s
      | Some gsStatus \<Rightarrow>
          (case supplied targetSizeKB of
             None \<Rightarrow>
               (case runGs e gsStatus (default_args outputPath inputPath)
                       inputPath outputPath s of
                  (Inr u, s1) \<Rightarrow> (Inr outputPath, s1)
                | (Inl err, s1) \<Rightarrow> copy_source inputPath outputPath s1)
           | Some t \<Rightarrow>
               (case try_strategies e gsStatus strategies inputPath outputPath
                       (times1024 t) s of
                  (True, s1) \<Rightarrow> (Inr outputPath, s1)
                | (False, s1) \<Rightarrow>
                    if \<not> existsSync s1 outputPath then copy_source inputPath outputPath s1
                    else (Inr outputPath, s1))))"

text \<open>
  Vocabulary for the properties of the ladder. \<open>source_bytes\<close> is what a run reads,
  \<open>attempt\<close> the outcome of the run of one strategy, \<open>meets\<close> the test of lines 206 to
  209 on it together with the resolved promise, \<open>cleared\<close> the store after line 195 and
  \<open>after_attempt\<close> the store after one pass through the body of the loop.
\<close>

definition source_bytes :: "world \<Rightarrow> path \<Rightarrow> buffer option" where
  "source_bytes s p = (case readFile s p of Inl err \<Rightarrow> None | Inr b \<Rightarrow> Some b)"

definition attempt ::
  "engine \<Rightarrow> string \<Rightarrow> strategy \<Rightarrow> path \<Rightarrow> path \<Rightarrow> world \<Rightarrow> proc_result \<times> buffer option" where
  "attempt e gsStatus strat inputPath outputPath s =
     render e gsStatus (strategy_args strat outputPath inputPath)
       (case readFile s inputPath of Inl err \<Rightarrow> None | Inr b \<Rightarrow> Some b)"

definition meets :: "proc_result \<times> buffer option \<Rightarrow> jsnum \<Rightarrow> bool" where
  "meets outcome targetBytes =
     (fst outcome = Closed 0
      \<and> (case snd outcome of None \<Rightarrow> False | Some b \<Rightarrow> length_le (length b) targetBytes))"

definition cleared :: "path \<Rightarrow> world \<Rightarrow> world" where
  "cleared outputPath s = (if existsSync s outputPath then snd (unlink outputPath s) else s)"

definition after_attempt ::
  "engine \<Rightarrow> string \<Rightarrow> strategy \<Rightarrow> path \<Rightarrow> path \<Rightarrow> world \<Rightarrow> world" where
  "after_attempt e gsStatus strat inputPath outputPath s =
     snd (runGs e gsStatus (strategy_args strat outputPath inputPath) inputPath outputPath
            (cleared outputPath s))"

section \<open>server.js\<close>

text \<open>
  \<^verbatim>\<open>req.file\<close> as multer leaves it, and the text field \<^verbatim>\<open>req.body.targetSizeKB\<close> (\<open>None\<close> when
  the form has no such field). \<^verbatim>\<open>parseFloat\<close> is a parameter of the handler.
\<close>

record multer_file =
  path :: path
  mimetype :: string
  originalname :: string

record request =
  req_file :: "multer_file option"
  body_targetSizeKB :: "string option"

datatype response =
    Status400 string
  | Status500 string
  | Done string string nat nat
  | Status404
  | Sent string buffer
  | SendFailed

text \<open>
  Lines 72 to 90 of the upload handler: what follows the compressor, and the \<^verbatim>\<open>catch\<close>.
  \<open>Done\<close> carries \<^verbatim>\<open>id\<close>, \<^verbatim>\<open>originalName\<close>, \<^verbatim>\<open>originalSize\<close> and \<^verbatim>\<open>compressedSize\<close>.
\<close>

definition respond :: "multer_file \<Rightarrow> (error + path) \<times> world \<Rightarrow> response \<times> world" where
  "respond f r =
     (case r of
        (Inl err, s1) \<Rightarrow> (Status500 ''Processing failed'', deleteFile (Some (path f)) s1)
      | (Inr processedPath, s1) \<Rightarrow>
          (case statSync s1 (path f) of
             Inl err \<Rightarrow> (Status500 ''Processing failed'', deleteFile (Some (path f)) s1)
           | Inr originalStats \<Rightarrow>
               (case statSync s1 processedPath of
                  Inl err \<Rightarrow> (Status500 ''Processing failed'', deleteFile (Some (path f)) s1)
                | Inr processedStats \<Rightarrow>
                    (Done (basename processedPath) (originalname f)
                       (length (content originalStats)) (length (content processedStats)),
                     deleteFile (Some (path f)) s1))))"

definition upload ::
  "(string \<Rightarrow> jsnum) \<Rightarrow> codec \<Rightarrow> engine \<Rightarrow> request \<Rightarrow> world \<Rightarrow> response \<times> world" where
  "upload parseFloat c e req s =
     (case req_file req of
        None \<Rightarrow> (Status400 ''No file uploaded'', s)
      | Some f \<Rightarrow>
          (let inputPath = path f;
               targetSizeKB =
                 (case body_targetSizeKB req of
                    None \<Rightarrow> None
                  | Some v \<Rightarrow> if v = [] then None else Some (parseFloat v))
           in
           if mimetype f = ''application/pdf''
           then respond f (compressPdf e inputPath PROCESSED_DIR targetSizeKB s)
           else if take 6 (mimetype f) = ''image/''
           then respond f (compressImage c inputPath PROCESSED_DIR targetSizeKB s)
           else (Status400 ''Unsupported file type'', deleteFile (Some inputPath) s)))"

text \<open>
  \<^verbatim>\<open>GET /download/:id\<close>. \<open>transfer_ok\<close> says whether \<^verbatim>\<open>res.download\<close> called back without an
  error; \<open>query_name\<close> is \<^verbatim>\<open>req.query.name\<close>.
\<close>

definition download :: "string \<Rightarrow> string option \<Rightarrow> bool \<Rightarrow> world \<Rightarrow> response \<times> world" where
  "download filename query_name transfer_ok s =
     (let filePath = path_join PROCESSED_DIR filename;
          userFilename = (case query_name of
                            None \<Rightarrow> filename
                          | Some n \<Rightarrow> if n = [] then filename else n)
      in if \<not> existsSync s filePath then (Status404, s)
         else
           (case readFile s filePath of
              Inl err \<Rightarrow> (SendFailed, s)
            | Inr bytes \<Rightarrow>
                if transfer_ok then (Sent userFilename bytes, deleteFile (Some filePath) s)
                else (SendFailed, s)))"

text \<open>
  The auto-cleanup of the interval timer (lines 157 to 190): \<open>expire\<close> is the body of the
  \<^verbatim>\<open>forEach\<close> callback, \<open>sweep\<close> one \<^verbatim>\<open>readdir\<close> with its loop, \<open>auto_cleanup\<close> one cycle.
  Both directories exist (the server creates them when it starts), so \<^verbatim>\<open>readdir\<close> does not
  fail; the callbacks run one after the other, each on its own path. Every step of a
  cycle is a callback, so the cycle ends when the unlinks it started have finished.
  Unlinks that others started before the cycle are not part of it and stay pending.
\<close>

definition maxAge :: rat where
  "maxAge = 2 * 60 * 1000"

definition expire :: "dir \<Rightarrow> rat \<Rightarrow> string \<Rightarrow> world \<Rightarrow> world" where
  "expire d now fname s =
     (let filePath = path_join d fname in
      case statSync s filePath of
        Inl err \<Rightarrow> s
      | Inr stats \<Rightarrow>
          if maxAge < now - mtimeMs stats then deleteFile (Some filePath) s else s)"

definition sweep :: "dir \<Rightarrow> rat \<Rightarrow> world \<Rightarrow> world" where
  "sweep d now s = fold (expire d now) (readdir s d) s"

definition auto_cleanup :: "world \<Rightarrow> world" where
  "auto_cleanup s =
     (let now = clock s;
          started = sweep UPLOAD_DIR now (sweep PROCESSED_DIR now (s\<lparr>pending := []\<rparr>))
      in (run_pending started)\<lparr>pending := pending s\<rparr>)"

text \<open>An entry of the store is expired at \<open>now\<close> when the test of line 168 holds for it.\<close>

definition expired :: "rat \<Rightarrow> artifact option \<Rightarrow> bool" where
  "expired now found = (case found of None \<Rightarrow> False | Some f \<Rightarrow> maxAge < now - mtimeMs f)"

text \<open>
  The codec calls that write an image out: \<^verbatim>\<open>toBuffer\<close>, \<^verbatim>\<open>toFile\<close> and the \<^verbatim>\<open>toBuffer\<close> of
  \<^verbatim>\<open>getBuffer\<close> each run the encoder once.
\<close>

fun is_encode :: "event \<Rightarrow> bool" where
  "is_encode (Preprocess resize) = True"
| "is_encode (GetBuffer w q) = True"
| "is_encode (ToFile st) = True"
| "is_encode (RunGs argv) = False"
| "is_encode (ConsoleError p err) = False"

section \<open>Example inputs\<close>

text \<open>
  A codec whose output size depends on the resize width only (5000 bytes at the native
  resolution, 700 bytes per pixel of width otherwise), for a 3 by 2 PNG, and a store that
  holds one upload.
\<close>

definition demo_codec :: codec where
  "demo_codec =
     \<lparr>metadata = (\<lambda>buf. Some \<lparr>format = ''png'', width = 3, height = 2\<rparr>),
      toBuffer = (\<lambda>resize buf. Some buf),
      encode = (\<lambda>w st buf. Some (replicate (case w of None \<Rightarrow> 5000 | Some n \<Rightarrow> 700 * n) 0))\<rparr>"

definition demo_world :: world where
  "demo_world =
     \<lparr>files = [((Inside UPLOAD_DIR (entry_named ''a.png'')), \<lparr>content = [1, 2, 3], mtimeMs = 0\<rparr>)],
      clock = 5, trace = [], pending = []\<rparr>"

text \<open>
  An engine found under the name \<^verbatim>\<open>gs\<close>: the ebook preset leaves 3000 bytes, the screen
  preset 2000 bytes, and the run with the 50 dpi caps exits with code 1 and leaves nothing.
\<close>

definition demo_engine :: engine where
  "demo_engine =
     \<lparr>version_probe = (\<lambda>cmd. if cmd = ''gs'' then Closed 0 else SpawnError),
      render = (\<lambda>cmd argv inp.
        if ''-dColorImageResolution=50'' \<in> set argv then (Closed 1, None)
        else if ''-dPDFSETTINGS=/ebook'' \<in> set argv then (Closed 0, Some (replicate 3000 0))
        else (Closed 0, Some (replicate 2000 0)))\<rparr>"

definition demo_pdf_world :: world where
  "demo_pdf_world =
     \<lparr>files = [((Inside UPLOAD_DIR (entry_named ''d.pdf'')), \<lparr>content = replicate 4000 7, mtimeMs = 0\<rparr>)],
      clock = 5, trace = [], pending = []\<rparr>"

section \<open>Properties of the store\<close>

lemma split_path_plain: "CHR ''/'' \<notin> set n \<Longrightarrow> split_path n = [n]"
  by (induction n) auto

lemma plain_entry_name: "plain (entry_name n)"
  using entry_name [of n] by simp

lemma path_join_entry: "path_join d (entry_name n) = Inside d n"
proof -
  have p: "plain (entry_name n)" by (rule plain_entry_name)
  then have split: "split_path (entry_name n) = [entry_name n]"
    by (simp add: plain_def split_path_plain)
  from p have "last (entry_name n) \<noteq> CHR ''/''"
    by (auto simp: plain_def dest: last_in_set)
  with p split show ?thesis
    by (cases d) (simp_all add: path_join_def Let_def resolve_segment_def locate_def plain_def
        dirname_def entry_name_inverse)
qed

lemmas path_eval =
  path_join_def Let_def resolve_segment_def locate_def plain_def dirname_def
  entry_named_inverse entry_named_inject

lemma map_of_remove_entry:
  "map_of (remove_entry p fs) q = (if q = p then None else map_of fs q)"
  by (induction fs) (auto simp: remove_entry_def)

lemma remove_entry_absent: "map_of fs p = None \<Longrightarrow> remove_entry p fs = fs"
  by (induction fs) (auto simp: remove_entry_def split: if_splits)

lemma existsSync_unlink_done:
  "existsSync (unlink_done p w) q = (q \<noteq> p \<and> existsSync w q)"
  by (auto simp: unlink_done_def unlink_def existsSync_def map_of_remove_entry)

lemma unlink_done_absent: "\<not> existsSync w p \<Longrightarrow> unlink_done p w = w"
  by (simp add: unlink_done_def unlink_def)

lemma map_of_unlink_done:
  "map_of (files (unlink_done p s)) q = (if q = p then None else map_of (files s) q)"
  by (auto simp: unlink_done_def unlink_def existsSync_def map_of_remove_entry)

lemma trace_unlink_done: "trace (unlink_done p s) = trace s"
  by (simp add: unlink_done_def unlink_def)

lemma clock_unlink_done: "clock (unlink_done p s) = clock s"
  by (simp add: unlink_done_def unlink_def)

lemma pending_unlink_done: "pending (unlink_done p s) = pending s"
  by (simp add: unlink_done_def unlink_def)

lemma files_deleteFile: "files (deleteFile p s) = files s"
  by (cases p) (simp_all add: deleteFile_def)

lemma trace_deleteFile: "trace (deleteFile p s) = trace s"
  by (cases p) (simp_all add: deleteFile_def)

lemma clock_deleteFile: "clock (deleteFile p s) = clock s"
  by (cases p) (simp_all add: deleteFile_def)

lemma pending_deleteFile: "pending (deleteFile (Some p) s) = pending s @ [p]"
  by (simp add: deleteFile_def)

lemma existsSync_deleteFile: "existsSync (deleteFile p s) q = existsSync s q"
  by (simp add: existsSync_def files_deleteFile)

lemma run_pending_deleteFile:
  "run_pending (deleteFile (Some p) w) = unlink_done p (run_pending w)"
  by (simp add: run_pending_def deleteFile_def)

lemma run_pending_idle: "pending w = [] \<Longrightarrow> run_pending w = w"
  by (simp add: run_pending_def)

lemma map_of_fold_unlink_done:
  "map_of (files (fold unlink_done ps w)) q = (if q \<in> set ps then None else map_of (files w) q)"
  by (induction ps arbitrary: w) (auto simp: map_of_unlink_done)

lemma trace_fold_unlink_done: "trace (fold unlink_done ps w) = trace w"
  by (induction ps arbitrary: w) (simp_all add: trace_unlink_done)

lemma clock_fold_unlink_done: "clock (fold unlink_done ps w) = clock w"
  by (induction ps arbitrary: w) (simp_all add: clock_unlink_done)

lemma pending_fold_unlink_done: "pending (fold unlink_done ps w) = pending w"
  by (induction ps arbitrary: w) (simp_all add: pending_unlink_done)

lemma map_of_run_pending:
  "map_of (files (run_pending w)) q = (if q \<in> set (pending w) then None else map_of (files w) q)"
  by (simp add: run_pending_def map_of_fold_unlink_done)

lemma trace_run_pending: "trace (run_pending w) = trace w"
  by (simp add: run_pending_def trace_fold_unlink_done)

lemma clock_run_pending: "clock (run_pending w) = clock w"
  by (simp add: run_pending_def clock_fold_unlink_done)

lemma pending_run_pending: "pending (run_pending w) = []"
  by (simp add: run_pending_def pending_fold_unlink_done)

lemma existsSync_run_pending:
  "existsSync (run_pending w) q = (q \<notin> set (pending w) \<and> existsSync w q)"
  by (simp add: existsSync_def map_of_run_pending)

text \<open>
  C4. Deleting is idempotent and raises nothing. \<^verbatim>\<open>deleteFile\<close> itself only starts the
  unlink: it returns with the store and the log as they were, and it has no error result
  at all, since whatever \<^verbatim>\<open>fs.unlink\<close> reports goes to the callback, which only logs. When
  the unlink has run: on a path that is absent by then it has changed nothing, store,
  clock and log included (ENOENT is not even logged); a second \<^verbatim>\<open>deleteFile\<close> of the same
  path, started after the first has finished or before, changes nothing more; the path is
  absent; and a falsy path is a no-op.
\<close>

theorem deleteFile_idempotent:
  "(\<not> existsSync (run_pending w) p
      \<longrightarrow> run_pending (deleteFile (Some p) w) = run_pending w)
   \<and> (pending w = [] \<and> \<not> existsSync w p \<longrightarrow> run_pending (deleteFile (Some p) w) = w)
   \<and> run_pending (deleteFile (Some p) (run_pending (deleteFile (Some p) w)))
       = run_pending (deleteFile (Some p) w)
   \<and> run_pending (deleteFile (Some p) (deleteFile (Some p) w))
       = run_pending (deleteFile (Some p) w)
   \<and> \<not> existsSync (run_pending (deleteFile (Some p) w)) p
   \<and> deleteFile None w = w
   \<and> files (deleteFile (Some p) w) = files w
   \<and> trace (deleteFile (Some p) w) = trace w"
proof -
  let ?done = "run_pending (deleteFile (Some p) w)"
  have gone: "\<not> existsSync ?done p"
    by (simp add: run_pending_deleteFile existsSync_unlink_done)
  have absent: "?done = run_pending w" if "\<not> existsSync (run_pending w) p"
    using that by (simp add: run_pending_deleteFile unlink_done_absent)
  have idle: "?done = w" if "pending w = []" and "\<not> existsSync w p"
    using that by (simp add: run_pending_deleteFile run_pending_idle unlink_done_absent)
  have settled: "run_pending ?done = ?done"
    by (rule run_pending_idle) (rule pending_run_pending)
  have again: "run_pending (deleteFile (Some p) ?done) = ?done"
    using gone by (simp add: run_pending_deleteFile [of p ?done] settled unlink_done_absent)
  have both: "run_pending (deleteFile (Some p) (deleteFile (Some p) w)) = ?done"
    using gone
    by (simp add: run_pending_deleteFile [of p "deleteFile (Some p) w"] unlink_done_absent)
  have falsy: "deleteFile None w = w"
    by (simp add: deleteFile_def)
  from gone absent idle again both falsy show ?thesis
    by (simp add: files_deleteFile trace_deleteFile)
qed

theorem deleteFile_idempotent_witness:
  "pending \<lparr>files = [], clock = 0, trace = [], pending = []\<rparr> = []
   \<and> \<not> existsSync \<lparr>files = [], clock = 0, trace = [], pending = []\<rparr>
         (Inside PROCESSED_DIR (entry_named ''a.png''))
   \<and> run_pending (deleteFile (Some (Inside PROCESSED_DIR (entry_named ''a.png'')))
                    \<lparr>files = [], clock = 0, trace = [], pending = []\<rparr>)
       = \<lparr>files = [], clock = 0, trace = [], pending = []\<rparr>"
  using deleteFile_idempotent
    [of "\<lparr>files = [], clock = 0, trace = [], pending = []\<rparr>"
        "Inside PROCESSED_DIR (entry_named ''a.png'')"]
  by (simp add: existsSync_def)

section \<open>Properties of the image search\<close>


lemma getBuffer_world: "snd (getBuffer c fmt buf w q s) = s\<lparr>trace := trace s @ [GetBuffer w q]\<rparr>"
  by (simp add: getBuffer_def)

lemma getBuffer_eq:
  "getBuffer c fmt buf w q s = (r, s') \<Longrightarrow> s' = s\<lparr>trace := trace s @ [GetBuffer w q]\<rparr>"
  by (auto simp: getBuffer_def)

lemma bitlen_mono: "m \<le> n \<Longrightarrow> bitlen m \<le> bitlen n"
proof (induction n arbitrary: m rule: bitlen.induct)
  case (1 n)
  show ?case
  proof (cases "m = 0")
    case True
    then show ?thesis by (simp add: bitlen.simps)
  next
    case False
    with 1(2) have n: "n \<noteq> 0" by simp
    have "m div 2 \<le> n div 2" using 1(2) by (simp add: div_le_mono)
    with 1(1) n have "bitlen (m div 2) \<le> bitlen (n div 2)" by simp
    with False n show ?thesis by (simp add: bitlen.simps)
  qed
qed

lemma bitlen_half: "0 < n \<Longrightarrow> m \<le> n div 2 \<Longrightarrow> Suc (bitlen m) \<le> bitlen n"
  using bitlen_mono [of m "n div 2"] by (subst (2) bitlen.simps) simp

lemma quality_search_fits:
  "length_le (length best) tb \<Longrightarrow> quality_search c fmt cur w tb l r best s = (Inr b, s')
     \<Longrightarrow> length_le (length b) tb"
proof (induction c fmt cur w tb l r best s rule: quality_search.induct)
  case (1 c fmt cur w tb l r best s)
  show ?case
  proof (cases "l \<le> r")
    case False
    with 1(4) have "b = best" by (simp add: quality_search.simps)
    with 1(3) show ?thesis by simp
  next
    case True
    obtain res s1 where g: "getBuffer c fmt cur w ((l + r) div 2) s = (res, s1)"
      by (cases "getBuffer c fmt cur w ((l + r) div 2) s")
    show ?thesis
    proof (cases res)
      case None
      with True g 1(4) show ?thesis by (simp add: quality_search.simps)
    next
      case (Some buf)
      show ?thesis
      proof (cases "length_le (length buf) tb")
        case fits: True
        with True g Some 1(4)
        have "quality_search c fmt cur w tb ((l + r) div 2 + 1) r buf s1 = (Inr b, s')"
          by (simp add: quality_search.simps [of c fmt cur w tb l r])
        with 1(1) [OF True refl g [symmetric] _ fits fits] Some show ?thesis by simp
      next
        case nofit: False
        with True g Some 1(4)
        have "quality_search c fmt cur w tb l ((l + r) div 2 - 1) best s1 = (Inr b, s')"
          by (simp add: quality_search.simps [of c fmt cur w tb l r])
        with 1(2) [OF True refl g [symmetric] _ nofit 1(3)] Some show ?thesis by simp
      qed
    qed
  qed
qed


lemma quality_search_trace:
  "length (trace (snd (quality_search c fmt cur w tb l r best s)))
     \<le> length (trace s) + bitlen (nat (r + 1 - l))"
proof (induction c fmt cur w tb l r best s rule: quality_search.induct)
  case (1 c fmt cur w tb l r best s)
  show ?case
  proof (cases "l \<le> r")
    case False
    then show ?thesis by (simp add: quality_search.simps)
  next
    case True
    let ?mid = "(l + r) div 2"
    obtain res s1 where g: "getBuffer c fmt cur w ?mid s = (res, s1)"
      by (cases "getBuffer c fmt cur w ?mid s")
    then have s1: "length (trace s1) = Suc (length (trace s))"
      by (auto dest: getBuffer_eq)
    from True have pos: "0 < nat (r + 1 - l)" by simp
    have up: "Suc (bitlen (nat (r + 1 - (?mid + 1)))) \<le> bitlen (nat (r + 1 - l))"
      using True by (intro bitlen_half [OF pos]) linarith
    have down: "Suc (bitlen (nat (?mid - 1 + 1 - l))) \<le> bitlen (nat (r + 1 - l))"
      using True by (intro bitlen_half [OF pos]) linarith
    show ?thesis
    proof (cases res)
      case None
      with True g s1 pos show ?thesis
        using bitlen_half [OF pos, of 0] by (simp add: quality_search.simps [of c fmt cur w tb l r])
    next
      case (Some buf)
      show ?thesis
      proof (cases "length_le (length buf) tb")
        case fits: True
        from 1(1) [OF True refl g [symmetric] _ fits] Some
        have "length (trace (snd (quality_search c fmt cur w tb (?mid + 1) r buf s1)))
                \<le> length (trace s1) + bitlen (nat (r + 1 - (?mid + 1)))" by simp
        with True g Some fits s1 up show ?thesis
          by (simp add: quality_search.simps [of c fmt cur w tb l r])
      next
        case nofit: False
        from 1(2) [OF True refl g [symmetric] _ nofit] Some
        have "length (trace (snd (quality_search c fmt cur w tb l (?mid - 1) best s1)))
                \<le> length (trace s1) + bitlen (nat (?mid - 1 + 1 - l))" by simp
        with True g Some nofit s1 down show ?thesis
          by (simp add: quality_search.simps [of c fmt cur w tb l r])
      qed
    qed
  qed
qed

lemma bitlen_100: "bitlen 100 = 7"
  by (simp add: bitlen.simps)

lemma quality_search_probes:
  "length (trace (snd (quality_search c fmt cur w tb 1 100 best s))) \<le> length (trace s) + 7"
  using quality_search_trace [of c fmt cur w tb 1 100 best s] by (simp add: bitlen_100)

lemma resize_loop_fits:
  "\<forall>b. encode c (Some 1) (quality_settings fmt 1) cur = Some b
          \<longrightarrow> length_le (length b) tb
   \<Longrightarrow> resize_loop c fmt cur tb w0 s = (Inr b, s') \<Longrightarrow> length_le (length b) tb"
proof (induction c fmt cur tb w0 s rule: resize_loop.induct)
  case (1 c fmt cur tb w0 s)
  note floor = "1.prems"(1)
  define w1 where "w1 = (if floor_mul070 w0 < 1 then 1 else floor_mul070 w0)"
  obtain r50 s1 where g50: "getBuffer c fmt cur (Some w1) 50 s = (r50, s1)"
    by (cases "getBuffer c fmt cur (Some w1) 50 s")
  obtain r1 s2 where g1: "getBuffer c fmt cur (Some w1) 1 s1 = (r1, s2)"
    by (cases "getBuffer c fmt cur (Some w1) 1 s1")
  obtain rf s3 where gf: "getBuffer c fmt cur (Some 1) 1 s2 = (rf, s3)"
    by (cases "getBuffer c fmt cur (Some 1) 1 s2")
  note eq = "1.prems"(2) [unfolded resize_loop.simps [of c fmt cur tb w0 s], folded w1_def,
      unfolded Let_def g50]
  show ?case
  proof (cases r50)
    case None
    with eq show ?thesis by simp
  next
    case (Some buf)
    note buf = this
    show ?thesis
    proof (cases "length_le (length buf) tb")
      case True
      with eq buf have "quality_search c fmt cur (Some w1) tb 1 100 buf s1 = (Inr b, s')"
        by simp
      with True show ?thesis by (rule quality_search_fits)
    next
      case nofit50: False
      show ?thesis
      proof (cases r1)
        case None
        with eq buf nofit50 g1 show ?thesis by simp
      next
        case (Some bufLow)
        note low = this
        show ?thesis
        proof (cases "length_le (length bufLow) tb")
          case True
          with eq buf nofit50 g1 low show ?thesis by auto
        next
          case nofit1: False
          show ?thesis
          proof (cases "w1 = 1")
            case True
            with eq buf nofit50 g1 low nofit1 gf have "rf = Some b"
              by (auto split: option.splits)
            with gf have "encode c (Some 1) (quality_settings fmt 1) cur = Some b"
              by (simp add: getBuffer_def)
            with floor show ?thesis by simp
          next
            case False
            with eq buf nofit50 g1 low nofit1
            have "resize_loop c fmt cur tb w1 s2 = (Inr b, s')" by simp
            with "1.IH" [OF w1_def g50 [symmetric] buf nofit50 g1 [symmetric] low nofit1 False floor]
            show ?thesis by simp
          qed
        qed
      qed
    qed
  qed
qed


lemma resize_loop_trace:
  "length (trace (snd (resize_loop c fmt cur tb w0 s))) \<le> length (trace s) + (2 * w0 + 8)"
proof (induction c fmt cur tb w0 s rule: resize_loop.induct)
  case (1 c fmt cur tb w0 s)
  define w1 where "w1 = (if floor_mul070 w0 < 1 then 1 else floor_mul070 w0)"
  obtain r50 s1 where g50: "getBuffer c fmt cur (Some w1) 50 s = (r50, s1)"
    by (cases "getBuffer c fmt cur (Some w1) 50 s")
  obtain r1 s2 where g1: "getBuffer c fmt cur (Some w1) 1 s1 = (r1, s2)"
    by (cases "getBuffer c fmt cur (Some w1) 1 s1")
  obtain rf s3 where gf: "getBuffer c fmt cur (Some 1) 1 s2 = (rf, s3)"
    by (cases "getBuffer c fmt cur (Some 1) 1 s2")
  have l1: "length (trace s1) = length (trace s) + 1"
    using g50 by (auto dest: getBuffer_eq)
  have l2: "length (trace s2) = length (trace s) + 2"
    using g1 l1 by (auto dest: getBuffer_eq)
  have l3: "length (trace s3) = length (trace s) + 3"
    using gf l2 by (auto dest: getBuffer_eq)
  note eq = resize_loop.simps [of c fmt cur tb w0 s, folded w1_def, unfolded Let_def g50]
  show ?case
  proof (cases r50)
    case None
    with eq l1 show ?thesis by simp
  next
    case (Some buf)
    note buf = this
    show ?thesis
    proof (cases "length_le (length buf) tb")
      case True
      have "length (trace (snd (quality_search c fmt cur (Some w1) tb 1 100 buf s1)))
              \<le> length (trace s1) + 7"
        by (rule quality_search_probes)
      with True eq buf l1 show ?thesis by simp
    next
      case nofit50: False
      show ?thesis
      proof (cases r1)
        case None
        with eq buf nofit50 g1 l2 show ?thesis by simp
      next
        case (Some bufLow)
        note low = this
        show ?thesis
        proof (cases "length_le (length bufLow) tb")
          case True
          with eq buf nofit50 g1 low l2 show ?thesis by simp
        next
          case nofit1: False
          show ?thesis
          proof (cases "w1 = 1")
            case True
            with eq buf nofit50 g1 low nofit1 gf l3 show ?thesis
              by (cases rf) simp_all
          next
            case False
            then have pos: "0 < floor_mul070 w0" and w1: "w1 = floor_mul070 w0"
              by (auto simp: w1_def split: if_splits)
            from pos have "0 < w0"
              using floor_mul070_zero by (cases "w0 = 0") simp_all
            then have "w1 < w0" unfolding w1 by (rule floor_mul070_less)
            moreover
            have "length (trace (snd (resize_loop c fmt cur tb w1 s2)))
                    \<le> length (trace s2) + (2 * w1 + 8)"
              by (rule "1.IH" [OF w1_def g50 [symmetric] buf nofit50 g1 [symmetric] low nofit1 False])
            ultimately show ?thesis
              using eq buf nofit50 g1 low nofit1 False l2 by simp
          qed
        qed
      qed
    qed
  qed
qed

lemma statSync_writeFileSync:
  "statSync (writeFileSync p buf s) p = Inr \<lparr>content = buf, mtimeMs = clock s\<rparr>"
  by (simp add: statSync_def writeFileSync_def)

lemma compressBufferRecursive_fits:
  assumes run: "compressBufferRecursive c input outputPath fmt (Some t) s = (Inr out, s')"
    and t: "truthy t"
    and floor: "\<forall>b. encode c (Some 1) (quality_settings fmt 1) input = Some b
                  \<longrightarrow> length_le (length b) (times1024 t)"
  shows "\<exists>f. statSync s' out = Inr f \<and> length_le (length (content f)) (times1024 t)"
proof -
  obtain r1 s1 where g: "getBuffer c fmt input None 1 s = (r1, s1)"
    by (cases "getBuffer c fmt input None 1 s")
  from t have sup: "supplied (Some t) = Some t" by (simp add: supplied_def)
  note eq = run [unfolded compressBufferRecursive_def sup option.case Let_def g]
  show ?thesis
  proof (cases r1)
    case None
    with eq show ?thesis by simp
  next
    case (Some lowQBuffer)
    note low = this
    show ?thesis
    proof (cases "length_le (length lowQBuffer) (times1024 t)")
      case True
      obtain r2 s2 where q: "quality_search c fmt input None (times1024 t) 1 100 lowQBuffer s1 = (r2, s2)"
        by (cases "quality_search c fmt input None (times1024 t) 1 100 lowQBuffer s1")
      with eq low True obtain b where r2: "r2 = Inr b"
        and out: "out = outputPath" "s' = writeFileSync outputPath b s2"
        by (cases r2) auto
      from True q [unfolded r2] have "length_le (length b) (times1024 t)"
        by (rule quality_search_fits)
      with out show ?thesis by (simp add: statSync_writeFileSync)
    next
      case False
      with eq low obtain m where m: "metadata c input = Some m"
        by (cases "metadata c input") auto
      obtain r2 s2 where q: "resize_loop c fmt input (times1024 t) (width m) s1 = (r2, s2)"
        by (cases "resize_loop c fmt input (times1024 t) (width m) s1")
      with eq low False m obtain b where r2: "r2 = Inr b"
        and out: "out = outputPath" "s' = writeFileSync outputPath b s2"
        by (cases r2) auto
      from floor q [unfolded r2] have "length_le (length b) (times1024 t)"
        by (rule resize_loop_fits)
      with out show ?thesis by (simp add: statSync_writeFileSync)
    qed
  qed
qed

text \<open>
  C1. When \<^verbatim>\<open>compressImage\<close> is given a truthy target (every strictly positive one is) and
  returns a path, the file at that path has at most \<^verbatim>\<open>targetSizeKB * 1024\<close> bytes, provided
  the encoding of the preprocessed image at width 1 and quality 1 fits in that many bytes.
\<close>

theorem compressImage_meets_target:
  assumes run: "compressImage c inputPath outputDir (Some t) s = (Inr out, s')"
    and t: "truthy t"
    and floor: "\<forall>raw m pre b.
        readFile s inputPath = Inr raw \<longrightarrow> metadata c raw = Some m \<longrightarrow>
        toBuffer c (needs_resize m) raw = Some pre \<longrightarrow>
        encode c (Some 1) (quality_settings (format m) 1) pre = Some b \<longrightarrow>
        length_le (length b) (times1024 t)"
  shows "\<exists>f. statSync s' out = Inr f \<and> length_le (length (content f)) (times1024 t)"
proof -
  from run obtain raw where raw: "readFile s inputPath = Inr raw"
    by (cases "readFile s inputPath") (auto simp: compressImage_def)
  from run raw obtain m where m: "metadata c raw = Some m"
    by (cases "metadata c raw") (auto simp: compressImage_def)
  from run raw m obtain pre where pre: "toBuffer c (needs_resize m) raw = Some pre"
    by (cases "toBuffer c (needs_resize m) raw") (auto simp: compressImage_def)
  from run raw m pre
  have "compressBufferRecursive c pre (path_join outputDir (basename inputPath)) (format m)
          (Some t) (s\<lparr>trace := trace s @ [Preprocess (needs_resize m)]\<rparr>) = (Inr out, s')"
    by (simp add: compressImage_def)
  moreover from floor raw m pre
  have "\<forall>b. encode c (Some 1) (quality_settings (format m) 1) pre = Some b
          \<longrightarrow> length_le (length b) (times1024 t)"
    by blast
  ultimately show ?thesis using t by (intro compressBufferRecursive_fits)
qed


lemma floor_mul070_3: "floor_mul070 3 = 2"
  by (simp add: floor_mul070_def round53_def mant070_def bitlen.simps Let_def)

lemma floor_mul070_2: "floor_mul070 2 = 1"
  by (simp add: floor_mul070_def round53_def mant070_def bitlen.simps Let_def)

theorem compressImage_meets_target_witness:
  "fst (compressImage demo_codec (Inside UPLOAD_DIR (entry_named ''a.png'')) PROCESSED_DIR (Some (Fin 1)) demo_world)
     = Inr (Inside PROCESSED_DIR (entry_named ''a.png''))
   \<and> truthy (Fin 1)
   \<and> (\<exists>f. statSync
             (snd (compressImage demo_codec (Inside UPLOAD_DIR (entry_named ''a.png'')) PROCESSED_DIR (Some (Fin 1))
                     demo_world))
             (Inside PROCESSED_DIR (entry_named ''a.png'')) = Inr f
          \<and> length_le (length (content f)) (times1024 (Fin 1)))"
proof -
  have run: "compressImage demo_codec (Inside UPLOAD_DIR (entry_named ''a.png'')) PROCESSED_DIR (Some (Fin 1)) demo_world
      = (Inr (Inside PROCESSED_DIR (entry_named ''a.png'')),
         \<lparr>files =
            [((Inside PROCESSED_DIR (entry_named ''a.png'')), \<lparr>content = replicate 700 0, mtimeMs = 5\<rparr>),
             ((Inside UPLOAD_DIR (entry_named ''a.png'')), \<lparr>content = [1, 2, 3], mtimeMs = 0\<rparr>)],
          clock = 5,
          trace =
            [Preprocess False, GetBuffer None 1, GetBuffer (Some 2) 50, GetBuffer (Some 2) 1,
             GetBuffer (Some 1) 50, GetBuffer (Some 1) 50, GetBuffer (Some 1) 75,
             GetBuffer (Some 1) 88, GetBuffer (Some 1) 94, GetBuffer (Some 1) 97,
             GetBuffer (Some 1) 99, GetBuffer (Some 1) 100],
          pending = []\<rparr>)"
    by (simp add: compressImage_def compressBufferRecursive_def demo_codec_def demo_world_def
        readFile_def path_eval needs_resize_def supplied_def getBuffer_def
        quality_settings_def resize_loop.simps quality_search.simps floor_mul070_3
        floor_mul070_2 writeFileSync_def remove_entry_def Let_def)
  have t: "truthy (Fin 1)" by simp
  have floor: "\<forall>raw m pre b.
        readFile demo_world (Inside UPLOAD_DIR (entry_named ''a.png'')) = Inr raw \<longrightarrow> metadata demo_codec raw = Some m \<longrightarrow>
        toBuffer demo_codec (needs_resize m) raw = Some pre \<longrightarrow>
        encode demo_codec (Some 1) (quality_settings (format m) 1) pre = Some b \<longrightarrow>
        length_le (length b) (times1024 (Fin 1))"
    by (auto simp: demo_codec_def)
  show ?thesis
    using compressImage_meets_target [OF run t floor] run by simp
qed

text \<open>
  C5. The target-path search ends, with a bound on the codec calls it makes: the binary
  search over the qualities 1 to 100 logs at most 7 \<^verbatim>\<open>getBuffer\<close> calls whatever the
  codec answers, and the resize loop started at width \<open>w0\<close> logs at most \<open>2 * w0 + 8\<close>
  (two probes for each width it visits, each width strictly below the one before, and
  at most one final search or probe). Both functions are total: their recursion is
  well-founded on \<open>r + 1 - l\<close> and on the width.
\<close>

theorem target_search_terminates:
  "length (trace (snd (quality_search c fmt cur w tb 1 100 best s))) \<le> length (trace s) + 7
   \<and> length (trace (snd (resize_loop c fmt cur tb w0 s))) \<le> length (trace s) + (2 * w0 + 8)"
  using quality_search_probes [of c fmt cur w tb best s] resize_loop_trace [of c fmt cur tb w0 s]
  by simp

text \<open>
  C8 as stated fails. With no target \<^verbatim>\<open>compressImage\<close> runs the encoder twice: once in
  \<^verbatim>\<open>sharp(inputPath).toBuffer()\<close> (lines 19 to 23, taken for every image, resized or not),
  and once in \<^verbatim>\<open>toFile\<close> (line 35). For the example image the log holds the two calls.
\<close>

theorem no_target_two_encodes_counterexample:
  "trace (snd (compressImage demo_codec (Inside UPLOAD_DIR (entry_named ''a.png'')) PROCESSED_DIR
                 None demo_world))
     = [Preprocess False, ToFile (Png None 8)]
   \<and> length (filter is_encode
        (trace (snd (compressImage demo_codec (Inside UPLOAD_DIR (entry_named ''a.png''))
                       PROCESSED_DIR None demo_world)))) = 2"
  by (simp add: compressImage_def compressBufferRecursive_def demo_codec_def demo_world_def
      readFile_def path_eval needs_resize_def supplied_def preset_def
      writeFileSync_def remove_entry_def)

text \<open>
  C8, amended. With no target there is no search: \<^verbatim>\<open>compressImage\<close> makes no \<^verbatim>\<open>getBuffer\<close>
  call. It reads the upload into a buffer with \<^verbatim>\<open>toBuffer\<close> (resized exactly when a side
  exceeds 4000), runs one pipeline on that buffer with the fixed settings of the format
  (JPEG quality 70, PNG compression level 8 with a palette, WebP quality 65, nothing for
  any other format), and the file it returns holds the bytes of that run. When a codec
  call fails the run stops where it failed and writes nothing.
\<close>

theorem no_target_preset_pass:
  assumes "compressImage c inputPath outputDir None s = (r, s')"
  shows "(\<exists>raw m pre bytes.
            readFile s inputPath = Inr raw \<and> metadata c raw = Some m
            \<and> toBuffer c (4000 < width m \<or> 4000 < height m) raw = Some pre
            \<and> encode c None
                 (if format m = ''jpeg'' \<or> format m = ''jpg'' then Jpeg 70
                  else if format m = ''png'' then Png None 8
                  else if format m = ''webp'' then Webp 65
                  else Unchanged) pre = Some bytes
            \<and> r = Inr (path_join outputDir (basename inputPath))
            \<and> readFile s' (path_join outputDir (basename inputPath)) = Inr bytes
            \<and> trace s' = trace s @
                 [Preprocess (4000 < width m \<or> 4000 < height m),
                  ToFile (if format m = ''jpeg'' \<or> format m = ''jpg'' then Jpeg 70
                          else if format m = ''png'' then Png None 8
                          else if format m = ''webp'' then Webp 65
                          else Unchanged)])
         \<or> (r = Inl SharpError \<and> files s' = files s
              \<and> (\<exists>m. trace s' = trace s
                     \<or> trace s' = trace s @ [Preprocess (needs_resize m)]
                     \<or> trace s' = trace s @ [Preprocess (needs_resize m), ToFile (preset (format m))]))"
proof (cases "readFile s inputPath")
  case (Inl err)
  with assms show ?thesis by (simp add: compressImage_def)
next
  case (Inr raw)
  note raw = this
  show ?thesis
  proof (cases "metadata c raw")
    case None
    with assms raw show ?thesis by (simp add: compressImage_def)
  next
    case (Some m)
    note m = this
    let ?s1 = "s\<lparr>trace := trace s @ [Preprocess (needs_resize m)]\<rparr>"
    show ?thesis
    proof (cases "toBuffer c (needs_resize m) raw")
      case None
      with assms raw m have "r = Inl SharpError" "s' = ?s1"
        by (simp_all add: compressImage_def)
      then show ?thesis by auto
    next
      case (Some pre)
      note pre = this
      let ?out = "path_join outputDir (basename inputPath)"
      let ?s2 = "s\<lparr>trace := trace s @ [Preprocess (needs_resize m), ToFile (preset (format m))]\<rparr>"
      show ?thesis
      proof (cases "encode c None (preset (format m)) pre")
        case None
        with assms raw m pre have "r = Inl SharpError" "s' = ?s2"
          by (simp_all add: compressImage_def compressBufferRecursive_def supplied_def Let_def)
        then show ?thesis by auto
      next
        case (Some bytes)
        with assms raw m pre have r: "r = Inr ?out" and s': "s' = writeFileSync ?out bytes ?s2"
          by (simp_all add: compressImage_def compressBufferRecursive_def supplied_def Let_def)
        from s' have "readFile s' ?out = Inr bytes" "trace s' = trace ?s2"
          by (simp_all add: readFile_def writeFileSync_def)
        with raw m pre Some r show ?thesis
          by (simp add: needs_resize_def preset_def)
      qed
    qed
  qed
qed

theorem no_target_preset_pass_witness:
  "compressImage demo_codec (Inside UPLOAD_DIR (entry_named ''a.png'')) PROCESSED_DIR None demo_world
     = (Inr (Inside PROCESSED_DIR (entry_named ''a.png'')),
        \<lparr>files =
           [((Inside PROCESSED_DIR (entry_named ''a.png'')),
             \<lparr>content = replicate 5000 0, mtimeMs = 5\<rparr>),
            ((Inside UPLOAD_DIR (entry_named ''a.png'')), \<lparr>content = [1, 2, 3], mtimeMs = 0\<rparr>)],
         clock = 5,
         trace = [Preprocess False, ToFile (Png None 8)],
         pending = []\<rparr>)"
proof -
  have run: "compressImage demo_codec (Inside UPLOAD_DIR (entry_named ''a.png'')) PROCESSED_DIR None
               demo_world
     = (Inr (Inside PROCESSED_DIR (entry_named ''a.png'')),
        \<lparr>files =
           [((Inside PROCESSED_DIR (entry_named ''a.png'')),
             \<lparr>content = replicate 5000 0, mtimeMs = 5\<rparr>),
            ((Inside UPLOAD_DIR (entry_named ''a.png'')), \<lparr>content = [1, 2, 3], mtimeMs = 0\<rparr>)],
         clock = 5,
         trace = [Preprocess False, ToFile (Png None 8)],
         pending = []\<rparr>)"
    by (simp add: compressImage_def compressBufferRecursive_def demo_codec_def demo_world_def
        readFile_def path_eval needs_resize_def supplied_def preset_def
        writeFileSync_def remove_entry_def)
  from no_target_preset_pass [OF run] run show ?thesis by simp
qed


section \<open>Properties of the request handlers\<close>

lemma respond_deletes: "snd (respond f r) = deleteFile (Some (path f)) (snd r)"
  by (cases r) (auto simp: respond_def split: sum.splits)

text \<open>
  C2 as stated fails. The handler returns with the upload still in the store: every exit
  calls \<^verbatim>\<open>deleteFile\<close>, which starts \<^verbatim>\<open>fs.unlink\<close> and returns at once. For the example
  upload this is so after the 400 answer to an unsupported MIME type and after the answer
  to a compressed image alike.
\<close>

theorem upload_leaves_upload_counterexample:
  "upload (\<lambda>v. NaN) demo_codec demo_engine
     \<lparr>req_file = Some \<lparr>path = Inside UPLOAD_DIR (entry_named ''a.png''),
                                  mimetype = ''text/plain'', originalname = ''notes.txt''\<rparr>,
                body_targetSizeKB = None\<rparr> demo_world
     = (Status400 ''Unsupported file type'',
        \<lparr>files = [(Inside UPLOAD_DIR (entry_named ''a.png''), \<lparr>content = [1, 2, 3], mtimeMs = 0\<rparr>)],
         clock = 5, trace = [], pending = [Inside UPLOAD_DIR (entry_named ''a.png'')]\<rparr>)
   \<and> existsSync
       (snd (upload (\<lambda>v. NaN) demo_codec demo_engine
               \<lparr>req_file = Some \<lparr>path = Inside UPLOAD_DIR (entry_named ''a.png''),
                                  mimetype = ''text/plain'', originalname = ''notes.txt''\<rparr>,
                body_targetSizeKB = None\<rparr> demo_world))
       (Inside UPLOAD_DIR (entry_named ''a.png''))
   \<and> existsSync
       (snd (upload (\<lambda>v. NaN) demo_codec demo_engine
               \<lparr>req_file = Some \<lparr>path = Inside UPLOAD_DIR (entry_named ''a.png''),
                                  mimetype = ''image/png'', originalname = ''photo.png''\<rparr>,
                body_targetSizeKB = None\<rparr> demo_world))
       (Inside UPLOAD_DIR (entry_named ''a.png''))"
  by (simp add: upload_def respond_def compressImage_def compressBufferRecursive_def
      demo_codec_def demo_world_def readFile_def statSync_def path_eval
      needs_resize_def supplied_def preset_def writeFileSync_def remove_entry_def
      deleteFile_def existsSync_def)

text \<open>
  C2, amended. When the upload handler has answered a request that carries a file, an
  unlink of the upload has been started, whatever the compressor did (returned a path, or
  failed) and whatever the MIME type; once the started unlinks have finished the upload
  is not in the store. For a MIME type that is neither \<^verbatim>\<open>application/pdf\<close> nor \<^verbatim>\<open>image/...\<close>
  the answer is the 400 response and the handler has done nothing but start that unlink:
  no codec or engine call is logged and no output was created.
\<close>

theorem upload_starts_unlink:
  assumes "req_file req = Some f"
  shows "path f \<in> set (pending (snd (upload parseFloat c e req s)))
     \<and> \<not> existsSync (run_pending (snd (upload parseFloat c e req s))) (path f)
     \<and> (mimetype f \<noteq> ''application/pdf'' \<and> take 6 (mimetype f) \<noteq> ''image/''
         \<longrightarrow> upload parseFloat c e req s
               = (Status400 ''Unsupported file type'', s\<lparr>pending := pending s @ [path f]\<rparr>)
             \<and> (\<forall>q. existsSync (run_pending (snd (upload parseFloat c e req s))) q
                      = (q \<noteq> path f \<and> existsSync (run_pending s) q)))"
proof -
  have "\<exists>s1. snd (upload parseFloat c e req s) = deleteFile (Some (path f)) s1"
    using assms by (auto simp: upload_def Let_def respond_deletes)
  then obtain s1 where after: "snd (upload parseFloat c e req s) = deleteFile (Some (path f)) s1"
    by blast
  have started: "path f \<in> set (pending (snd (upload parseFloat c e req s)))"
    by (simp add: after pending_deleteFile)
  have gone: "\<not> existsSync (run_pending (snd (upload parseFloat c e req s))) (path f)"
    by (simp add: after run_pending_deleteFile existsSync_unlink_done)
  have rejected: "upload parseFloat c e req s
               = (Status400 ''Unsupported file type'', s\<lparr>pending := pending s @ [path f]\<rparr>)
             \<and> (\<forall>q. existsSync (run_pending (snd (upload parseFloat c e req s))) q
                      = (q \<noteq> path f \<and> existsSync (run_pending s) q))"
    if "mimetype f \<noteq> ''application/pdf''" and "take 6 (mimetype f) \<noteq> ''image/''"
  proof -
    from assms that have run: "upload parseFloat c e req s
        = (Status400 ''Unsupported file type'', deleteFile (Some (path f)) s)"
      by (simp add: upload_def Let_def)
    then show ?thesis
      by (simp add: run_pending_deleteFile existsSync_unlink_done) (simp add: deleteFile_def)
  qed
  from started gone rejected show ?thesis by blast
qed

theorem upload_starts_unlink_witness:
  "Inside UPLOAD_DIR (entry_named ''a.png'')
     \<in> set (pending (snd (upload (\<lambda>v. NaN) demo_codec demo_engine
               \<lparr>req_file = Some \<lparr>path = Inside UPLOAD_DIR (entry_named ''a.png''),
                                  mimetype = ''text/plain'', originalname = ''notes.txt''\<rparr>,
                body_targetSizeKB = None\<rparr> demo_world)))
   \<and> \<not> existsSync
       (run_pending (snd (upload (\<lambda>v. NaN) demo_codec demo_engine
               \<lparr>req_file = Some \<lparr>path = Inside UPLOAD_DIR (entry_named ''a.png''),
                                  mimetype = ''text/plain'', originalname = ''notes.txt''\<rparr>,
                body_targetSizeKB = None\<rparr> demo_world)))
       (Inside UPLOAD_DIR (entry_named ''a.png''))
   \<and> fst (upload (\<lambda>v. NaN) demo_codec demo_engine
               \<lparr>req_file = Some \<lparr>path = Inside UPLOAD_DIR (entry_named ''a.png''),
                                  mimetype = ''text/plain'', originalname = ''notes.txt''\<rparr>,
                body_targetSizeKB = None\<rparr> demo_world)
       = Status400 ''Unsupported file type''
   \<and> upload (\<lambda>v. NaN) demo_codec demo_engine
               \<lparr>req_file = Some \<lparr>path = Inside UPLOAD_DIR (entry_named ''a.png''),
                                  mimetype = ''image/png'', originalname = ''photo.png''\<rparr>,
                body_targetSizeKB = None\<rparr> demo_world
       = (Done ''a.png'' ''photo.png'' 3 5000,
          \<lparr>files = [(Inside PROCESSED_DIR (entry_named ''a.png''),
                      \<lparr>content = replicate 5000 0, mtimeMs = 5\<rparr>),
                     (Inside UPLOAD_DIR (entry_named ''a.png''),
                      \<lparr>content = [1, 2, 3], mtimeMs = 0\<rparr>)],
           clock = 5, trace = [Preprocess False, ToFile (Png None 8)],
           pending = [Inside UPLOAD_DIR (entry_named ''a.png'')]\<rparr>)
   \<and> \<not> existsSync
       (run_pending (snd (upload (\<lambda>v. NaN) demo_codec demo_engine
               \<lparr>req_file = Some \<lparr>path = Inside UPLOAD_DIR (entry_named ''a.png''),
                                  mimetype = ''image/png'', originalname = ''photo.png''\<rparr>,
                body_targetSizeKB = None\<rparr> demo_world)))
       (Inside UPLOAD_DIR (entry_named ''a.png''))"
proof -
  have run: "upload (\<lambda>v. NaN) demo_codec demo_engine
               \<lparr>req_file = Some \<lparr>path = Inside UPLOAD_DIR (entry_named ''a.png''),
                                  mimetype = ''image/png'', originalname = ''photo.png''\<rparr>,
                body_targetSizeKB = None\<rparr> demo_world
       = (Done ''a.png'' ''photo.png'' 3 5000,
          \<lparr>files = [(Inside PROCESSED_DIR (entry_named ''a.png''),
                      \<lparr>content = replicate 5000 0, mtimeMs = 5\<rparr>),
                     (Inside UPLOAD_DIR (entry_named ''a.png''),
                      \<lparr>content = [1, 2, 3], mtimeMs = 0\<rparr>)],
           clock = 5, trace = [Preprocess False, ToFile (Png None 8)],
           pending = [Inside UPLOAD_DIR (entry_named ''a.png'')]\<rparr>)"
    by (simp add: upload_def respond_def compressImage_def compressBufferRecursive_def
        demo_codec_def demo_world_def readFile_def statSync_def path_eval
        needs_resize_def supplied_def preset_def writeFileSync_def remove_entry_def
        deleteFile_def existsSync_def)
  have rejected: "upload (\<lambda>v. NaN) demo_codec demo_engine
               \<lparr>req_file = Some \<lparr>path = Inside UPLOAD_DIR (entry_named ''a.png''),
                                  mimetype = ''text/plain'', originalname = ''notes.txt''\<rparr>,
                body_targetSizeKB = None\<rparr> demo_world
       = (Status400 ''Unsupported file type'',
          \<lparr>files = [(Inside UPLOAD_DIR (entry_named ''a.png''),
                      \<lparr>content = [1, 2, 3], mtimeMs = 0\<rparr>)],
           clock = 5, trace = [], pending = [Inside UPLOAD_DIR (entry_named ''a.png'')]\<rparr>)"
    by (simp add: upload_def deleteFile_def demo_world_def)
  have text_req: "req_file \<lparr>req_file = Some \<lparr>path = Inside UPLOAD_DIR (entry_named ''a.png''),
                                  mimetype = ''text/plain'', originalname = ''notes.txt''\<rparr>,
                body_targetSizeKB = None\<rparr>
      = Some \<lparr>path = Inside UPLOAD_DIR (entry_named ''a.png''), mimetype = ''text/plain'',
           originalname = ''notes.txt''\<rparr>"
    by simp
  have image_req: "req_file \<lparr>req_file = Some \<lparr>path = Inside UPLOAD_DIR (entry_named ''a.png''),
                                  mimetype = ''image/png'', originalname = ''photo.png''\<rparr>,
                body_targetSizeKB = None\<rparr>
      = Some \<lparr>path = Inside UPLOAD_DIR (entry_named ''a.png''), mimetype = ''image/png'',
           originalname = ''photo.png''\<rparr>"
    by simp
  note for_txt = upload_starts_unlink [OF text_req, of "\<lambda>v. NaN" demo_codec demo_engine demo_world]
  note for_img = upload_starts_unlink [OF image_req, of "\<lambda>v. NaN" demo_codec demo_engine demo_world]
  from for_txt [THEN conjunct1] for_txt [THEN conjunct2, THEN conjunct1]
    for_img [THEN conjunct2, THEN conjunct1]
  show ?thesis
    unfolding run rejected by simp
qed

text \<open>
  C3 as stated fails, twice. The id goes to \<^verbatim>\<open>path.join\<close> unchecked, so an id with \<^verbatim>\<open>..\<close> in
  it names a file outside the processed directory: with that directory empty, the id
  \<^verbatim>\<open>../uploads/a.png\<close> is answered with the bytes of the upload, and an unlink of the upload
  is started. And a download of a present id only starts the unlink: a second download
  before it has finished is sent the same bytes again.
\<close>

theorem download_counterexample:
  "readdir demo_world PROCESSED_DIR = []
   \<and> download ''../uploads/a.png'' None True demo_world
       = (Sent ''../uploads/a.png'' [1, 2, 3],
          \<lparr>files = [(Inside UPLOAD_DIR (entry_named ''a.png''), \<lparr>content = [1, 2, 3], mtimeMs = 0\<rparr>)],
           clock = 5, trace = [], pending = [Inside UPLOAD_DIR (entry_named ''a.png'')]\<rparr>)
   \<and> fst (download ''a.png'' None True
            \<lparr>files = [(Inside PROCESSED_DIR (entry_named ''a.png''), \<lparr>content = [9, 9], mtimeMs = 0\<rparr>)],
             clock = 5, trace = [], pending = []\<rparr>) = Sent ''a.png'' [9, 9]
   \<and> fst (download ''a.png'' None True
            (snd (download ''a.png'' None True
                    \<lparr>files = [(Inside PROCESSED_DIR (entry_named ''a.png''), \<lparr>content = [9, 9], mtimeMs = 0\<rparr>)],
             clock = 5, trace = [], pending = []\<rparr>))) = Sent ''a.png'' [9, 9]"
  by (simp add: download_def demo_world_def readdir_def existsSync_def readFile_def
      deleteFile_def path_eval)

text \<open>
  C3, amended. For an id that \<^verbatim>\<open>path.join\<close> resolves to a file name inside the processed
  directory: when no such file is in the store the download answers 404 and leaves the
  state alone; when there is one, a download with a successful transfer is sent its bytes,
  and once the unlink which that download started has finished, any further download of
  the id answers 404.
\<close>

theorem download_single_delivery:
  assumes "path_join PROCESSED_DIR filename = Inside PROCESSED_DIR n"
  shows "(\<not> existsSync s (Inside PROCESSED_DIR n)
      \<longrightarrow> download filename query_name transfer_ok s = (Status404, s))
   \<and> (existsSync s (Inside PROCESSED_DIR n)
      \<longrightarrow> (\<exists>u bytes. fst (download filename query_name True s) = Sent u bytes
                      \<and> readFile s (Inside PROCESSED_DIR n) = Inr bytes)
          \<and> fst (download filename query_name' transfer_ok
                   (run_pending (snd (download filename query_name True s)))) = Status404)"
proof -
  let ?p = "Inside PROCESSED_DIR n"
  have absent: "download filename query_name transfer_ok s = (Status404, s)"
    if "\<not> existsSync s ?p"
    using that assms by (simp add: download_def Let_def)
  have present: "(\<exists>u bytes. fst (download filename query_name True s) = Sent u bytes
                      \<and> readFile s ?p = Inr bytes)
          \<and> fst (download filename query_name' transfer_ok
                   (run_pending (snd (download filename query_name True s)))) = Status404"
    if ex: "existsSync s ?p"
  proof -
    from ex obtain bytes where rd: "readFile s ?p = Inr bytes"
      by (auto simp: existsSync_def readFile_def)
    with ex assms have first: "download filename query_name True s
        = (Sent (case query_name of None \<Rightarrow> filename | Some u \<Rightarrow> if u = [] then filename else u)
             bytes,
           deleteFile (Some ?p) s)"
      by (simp add: download_def Let_def)
    have "\<not> existsSync (run_pending (deleteFile (Some ?p) s)) ?p"
      by (simp add: run_pending_deleteFile existsSync_unlink_done)
    with assms have "fst (download filename query_name' transfer_ok
                 (run_pending (deleteFile (Some ?p) s))) = Status404"
      by (simp add: download_def Let_def)
    with first rd show ?thesis by simp
  qed
  from absent present show ?thesis by blast
qed

theorem download_single_delivery_witness:
  "path_join PROCESSED_DIR ''a.png'' = Inside PROCESSED_DIR (entry_named ''a.png'')
   \<and> existsSync \<lparr>files = [(Inside PROCESSED_DIR (entry_named ''a.png''), \<lparr>content = [9, 9], mtimeMs = 0\<rparr>)],
             clock = 5, trace = [], pending = []\<rparr> (Inside PROCESSED_DIR (entry_named ''a.png''))
   \<and> fst (download ''a.png'' None True
            \<lparr>files = [(Inside PROCESSED_DIR (entry_named ''a.png''), \<lparr>content = [9, 9], mtimeMs = 0\<rparr>)],
             clock = 5, trace = [], pending = []\<rparr>) = Sent ''a.png'' [9, 9]
   \<and> fst (download ''a.png'' None True
            (run_pending (snd (download ''a.png'' None True
                    \<lparr>files = [(Inside PROCESSED_DIR (entry_named ''a.png''), \<lparr>content = [9, 9], mtimeMs = 0\<rparr>)],
             clock = 5, trace = [], pending = []\<rparr>)))) = Status404
   \<and> path_join PROCESSED_DIR ''b.png'' = Inside PROCESSED_DIR (entry_named ''b.png'')
   \<and> \<not> existsSync \<lparr>files = [(Inside PROCESSED_DIR (entry_named ''a.png''), \<lparr>content = [9, 9], mtimeMs = 0\<rparr>)],
             clock = 5, trace = [], pending = []\<rparr> (Inside PROCESSED_DIR (entry_named ''b.png''))
   \<and> download ''b.png'' None True
            \<lparr>files = [(Inside PROCESSED_DIR (entry_named ''a.png''), \<lparr>content = [9, 9], mtimeMs = 0\<rparr>)],
             clock = 5, trace = [], pending = []\<rparr> = (Status404, \<lparr>files = [(Inside PROCESSED_DIR (entry_named ''a.png''), \<lparr>content = [9, 9], mtimeMs = 0\<rparr>)],
             clock = 5, trace = [], pending = []\<rparr>)"
proof -
  have a: "path_join PROCESSED_DIR ''a.png'' = Inside PROCESSED_DIR (entry_named ''a.png'')"
    by (simp add: path_eval)
  have b: "path_join PROCESSED_DIR ''b.png'' = Inside PROCESSED_DIR (entry_named ''b.png'')"
    by (simp add: path_eval)
  have first: "fst (download ''a.png'' None True
            \<lparr>files = [(Inside PROCESSED_DIR (entry_named ''a.png''), \<lparr>content = [9, 9], mtimeMs = 0\<rparr>)],
             clock = 5, trace = [], pending = []\<rparr>) = Sent ''a.png'' [9, 9]"
    by (simp add: download_def a existsSync_def readFile_def Let_def)
  from download_single_delivery
      [OF a, of "\<lparr>files = [(Inside PROCESSED_DIR (entry_named ''a.png''), \<lparr>content = [9, 9], mtimeMs = 0\<rparr>)],
             clock = 5, trace = [], pending = []\<rparr>" None True None]
    download_single_delivery
      [OF b, of "\<lparr>files = [(Inside PROCESSED_DIR (entry_named ''a.png''), \<lparr>content = [9, 9], mtimeMs = 0\<rparr>)],
             clock = 5, trace = [], pending = []\<rparr>" None True]
    a b first
  show ?thesis
    by (simp add: existsSync_def path_eval)
qed

lemma supplied_None: "supplied None = None"
  by (simp add: supplied_def)

lemma compressBufferRecursive_falsy:
  "supplied t = None
   \<Longrightarrow> compressBufferRecursive c input p fmt t s = compressBufferRecursive c input p fmt None s"
  by (simp add: compressBufferRecursive_def supplied_None)

lemma compressImage_falsy:
  assumes "supplied t = None"
  shows "compressImage c p d t s = compressImage c p d None s"
proof -
  have same: "compressBufferRecursive c input q fmt t s1
      = compressBufferRecursive c input q fmt None s1" for input q fmt s1
    using assms by (rule compressBufferRecursive_falsy)
  show ?thesis
    unfolding compressImage_def same ..
qed

lemma compressPdf_falsy:
  assumes "supplied t = None"
  shows "compressPdf e p d t s = compressPdf e p d None s"
  unfolding compressPdf_def assms supplied_None ..

text \<open>
  C10. A \<^verbatim>\<open>targetSizeKB\<close> field that \<^verbatim>\<open>parseFloat\<close> turns into 0 or NaN gives the same
  response and the same final state as a request without the field: the handler passes
  the number on, and the \<^verbatim>\<open>!targetSizeKB\<close> test of either compressor takes it for no target.
\<close>

theorem falsy_target_is_no_target:
  assumes "body_targetSizeKB req = Some v"
    and "parseFloat v = Fin 0 \<or> parseFloat v = NaN"
  shows "upload parseFloat c e req s = upload parseFloat c e (req\<lparr>body_targetSizeKB := None\<rparr>) s"
proof (cases "v = []")
  case True
  with assms(1) show ?thesis by (simp add: upload_def Let_def split: option.splits)
next
  case False
  from assms(2) have "supplied (Some (parseFloat v)) = None"
    by (auto simp: supplied_def)
  then have same: "compressImage c p d (Some (parseFloat v)) s = compressImage c p d None s"
    "compressPdf e p d (Some (parseFloat v)) s = compressPdf e p d None s" for p d
    by (simp_all add: compressImage_falsy compressPdf_falsy)
  show ?thesis
  proof (cases "req_file req")
    case None
    then show ?thesis by (simp add: upload_def)
  next
    case (Some f)
    with assms(1) False same show ?thesis by (simp add: upload_def Let_def)
  qed
qed

theorem falsy_target_is_no_target_witness:
  "upload (\<lambda>v. if v = ''0'' then Fin 0 else NaN) demo_codec demo_engine
     \<lparr>req_file = Some \<lparr>path = (Inside UPLOAD_DIR (entry_named ''a.png'')), mimetype = ''image/png'',
                        originalname = ''photo.png''\<rparr>,
      body_targetSizeKB = Some ''0''\<rparr> demo_world
   = upload (\<lambda>v. if v = ''0'' then Fin 0 else NaN) demo_codec demo_engine
     \<lparr>req_file = Some \<lparr>path = (Inside UPLOAD_DIR (entry_named ''a.png'')), mimetype = ''image/png'',
                        originalname = ''photo.png''\<rparr>,
      body_targetSizeKB = None\<rparr> demo_world"
  using falsy_target_is_no_target
    [of "\<lparr>req_file = Some \<lparr>path = (Inside UPLOAD_DIR (entry_named ''a.png'')), mimetype = ''image/png'',
                               originalname = ''photo.png''\<rparr>,
           body_targetSizeKB = Some ''0''\<rparr>" "''0''"
        "\<lambda>v. if v = ''0'' then Fin 0 else NaN" demo_codec demo_engine demo_world]
  by simp

section \<open>Properties of the auto-cleanup\<close>

lemma files_expire: "files (expire d now fname s) = files s"
  by (simp add: expire_def Let_def files_deleteFile split: sum.splits)

lemma pending_expire:
  "set (pending (expire d now fname s)) =
     set (pending s) \<union> (if expired now (map_of (files s) (path_join d fname))
                         then {path_join d fname} else {})"
  by (auto simp: expire_def Let_def statSync_def expired_def pending_deleteFile
      split: option.splits)

lemma files_fold_expire: "files (fold (expire d now) names s) = files s"
  by (induction names arbitrary: s) (simp_all add: files_expire)

lemma pending_fold_expire:
  "set (pending (fold (expire d now) names s)) =
     set (pending s) \<union> {path_join d fname | fname.
                           fname \<in> set names \<and> expired now (map_of (files s) (path_join d fname))}"
proof (induction names arbitrary: s)
  case Nil
  show ?case by simp
next
  case (Cons fname names)
  show ?case
    by (auto simp: Cons.IH pending_expire files_expire)
qed

lemma readdir_lists: "map_of (files s) (Inside d n) = Some f \<Longrightarrow> entry_name n \<in> set (readdir s d)"
proof -
  assume "map_of (files s) (Inside d n) = Some f"
  then have "(Inside d n, f) \<in> set (files s)" by (rule map_of_SomeD)
  then show ?thesis by (force simp: readdir_def)
qed

lemma readdir_entries: "fname \<in> set (readdir s d) \<Longrightarrow> \<exists>n. fname = entry_name n"
  by (auto simp: readdir_def split: path.splits if_splits)

lemma files_sweep: "files (sweep d now s) = files s"
  by (simp add: sweep_def files_fold_expire)

lemma pending_sweep:
  "q \<in> set (pending (sweep d now s))
     \<longleftrightarrow> q \<in> set (pending s) \<or> (\<exists>n. q = Inside d n \<and> expired now (map_of (files s) q))"
proof
  assume "q \<in> set (pending (sweep d now s))"
  then consider "q \<in> set (pending s)"
    | fname where "q = path_join d fname" "fname \<in> set (readdir s d)"
        "expired now (map_of (files s) q)"
    by (auto simp: sweep_def pending_fold_expire)
  then show "q \<in> set (pending s) \<or> (\<exists>n. q = Inside d n \<and> expired now (map_of (files s) q))"
  proof cases
    case 1
    then show ?thesis by simp
  next
    case 2
    from 2(2) obtain n where "fname = entry_name n" by (auto dest: readdir_entries)
    with 2(1) have "q = Inside d n" by (simp add: path_join_entry)
    with 2(3) show ?thesis by blast
  qed
next
  assume "q \<in> set (pending s) \<or> (\<exists>n. q = Inside d n \<and> expired now (map_of (files s) q))"
  then show "q \<in> set (pending (sweep d now s))"
  proof
    assume "q \<in> set (pending s)"
    then show ?thesis by (simp add: sweep_def pending_fold_expire)
  next
    assume "\<exists>n. q = Inside d n \<and> expired now (map_of (files s) q)"
    then obtain n where q: "q = Inside d n" and ex: "expired now (map_of (files s) q)" by blast
    from ex obtain f where "map_of (files s) q = Some f"
      by (auto simp: expired_def split: option.splits)
    with q have "entry_name n \<in> set (readdir s d)" by (auto dest: readdir_lists)
    moreover have "q = path_join d (entry_name n)" by (simp add: q path_join_entry)
    ultimately show ?thesis
      using ex by (auto simp: sweep_def pending_fold_expire)
  qed
qed

lemma map_of_auto_cleanup:
  "map_of (files (auto_cleanup s)) (Inside d n) =
     (if expired (clock s) (map_of (files s) (Inside d n)) then None
      else map_of (files s) (Inside d n))"
  by (cases d) (auto simp: auto_cleanup_def Let_def map_of_run_pending pending_sweep files_sweep)

text \<open>
  C9. One cycle of the auto-cleanup removes from either directory every file whose
  modification time lies more than 120000 ms before the clock reading of the cycle,
  and leaves every other file as it is.
\<close>

theorem auto_cleanup_expires:
  assumes "map_of (files s) (Inside d fname) = Some f"
  shows "(120000 < clock s - mtimeMs f \<longrightarrow> \<not> existsSync (auto_cleanup s) (Inside d fname))
       \<and> (\<not> 120000 < clock s - mtimeMs f
            \<longrightarrow> map_of (files (auto_cleanup s)) (Inside d fname) = Some f)"
  using assms
  by (simp add: map_of_auto_cleanup existsSync_def expired_def maxAge_def)

theorem auto_cleanup_expires_witness:
  "120000 < clock \<lparr>files = [(Inside UPLOAD_DIR (entry_named ''old.png''), \<lparr>content = [1], mtimeMs = 0\<rparr>),
                (Inside PROCESSED_DIR (entry_named ''new.png''), \<lparr>content = [2], mtimeMs = 80000\<rparr>)],
       clock = 200000, trace = [], pending = []\<rparr> - mtimeMs \<lparr>content = [1], mtimeMs = 0\<rparr>
   \<and> \<not> existsSync (auto_cleanup
      \<lparr>files = [(Inside UPLOAD_DIR (entry_named ''old.png''), \<lparr>content = [1], mtimeMs = 0\<rparr>),
                (Inside PROCESSED_DIR (entry_named ''new.png''), \<lparr>content = [2], mtimeMs = 80000\<rparr>)],
       clock = 200000, trace = [], pending = []\<rparr>) (Inside UPLOAD_DIR (entry_named ''old.png''))
   \<and> \<not> 120000 < clock \<lparr>files = [(Inside UPLOAD_DIR (entry_named ''old.png''), \<lparr>content = [1], mtimeMs = 0\<rparr>),
                (Inside PROCESSED_DIR (entry_named ''new.png''), \<lparr>content = [2], mtimeMs = 80000\<rparr>)],
       clock = 200000, trace = [], pending = []\<rparr> - mtimeMs \<lparr>content = [2], mtimeMs = 80000\<rparr>
   \<and> map_of (files (auto_cleanup
      \<lparr>files = [(Inside UPLOAD_DIR (entry_named ''old.png''), \<lparr>content = [1], mtimeMs = 0\<rparr>),
                (Inside PROCESSED_DIR (entry_named ''new.png''), \<lparr>content = [2], mtimeMs = 80000\<rparr>)],
       clock = 200000, trace = [], pending = []\<rparr>)) (Inside PROCESSED_DIR (entry_named ''new.png''))
       = Some \<lparr>content = [2], mtimeMs = 80000\<rparr>"
  using auto_cleanup_expires
      [of "\<lparr>files = [(Inside UPLOAD_DIR (entry_named ''old.png''), \<lparr>content = [1], mtimeMs = 0\<rparr>),
                (Inside PROCESSED_DIR (entry_named ''new.png''), \<lparr>content = [2], mtimeMs = 80000\<rparr>)],
       clock = 200000, trace = [], pending = []\<rparr>" UPLOAD_DIR "entry_named ''old.png''" "\<lparr>content = [1], mtimeMs = 0\<rparr>"]
    auto_cleanup_expires
      [of "\<lparr>files = [(Inside UPLOAD_DIR (entry_named ''old.png''), \<lparr>content = [1], mtimeMs = 0\<rparr>),
                (Inside PROCESSED_DIR (entry_named ''new.png''), \<lparr>content = [2], mtimeMs = 80000\<rparr>)],
       clock = 200000, trace = [], pending = []\<rparr>" PROCESSED_DIR "entry_named ''new.png''" "\<lparr>content = [2], mtimeMs = 80000\<rparr>"]
  by (simp add: path_eval)

section \<open>Properties of the preset ladder\<close>


lemma readFile_trace: "readFile (s\<lparr>trace := t\<rparr>) p = readFile s p"
  by (simp add: readFile_def)

lemma readFile_writeFileSync:
  "readFile (writeFileSync q buf s) p = (if p = q then Inr buf else readFile s p)"
  by (simp add: writeFileSync_def readFile_def map_of_remove_entry)

lemma readFile_absent: "\<not> existsSync s q \<Longrightarrow> readFile s q = Inl ENOENT"
  by (simp add: existsSync_def readFile_def)

lemma readFile_cleared:
  "readFile (cleared q s) p = (if p = q then Inl ENOENT else readFile s p)"
  by (simp add: cleared_def unlink_def readFile_def map_of_remove_entry existsSync_def)

lemma trace_cleared: "trace (cleared q s) = trace s"
  by (simp add: cleared_def unlink_def)

lemma unlink_cleared:
  "(if existsSync s q then unlink q s else (None, s)) = (None, cleared q s)"
  by (simp add: cleared_def unlink_def)

lemma readFile_runGs:
  "readFile (snd (runGs e g argv inputPath outputPath s)) p
     = (case snd (render e g argv (source_bytes s inputPath)) of
          None \<Rightarrow> readFile s p
        | Some b \<Rightarrow> if p = outputPath then Inr b else readFile s p)"
  by (simp add: runGs_def Let_def source_bytes_def readFile_writeFileSync readFile_trace
      split: option.splits)

lemma trace_runGs:
  "trace (snd (runGs e g argv inputPath outputPath s)) = trace s @ [RunGs argv]"
  by (simp add: runGs_def Let_def writeFileSync_def split: option.splits)

lemma fst_runGs:
  "fst (runGs e g argv inputPath outputPath s)
     = (if fst (render e g argv (source_bytes s inputPath)) = Closed 0 then Inr ()
        else Inl GsError)"
  by (simp add: runGs_def Let_def source_bytes_def)

lemma source_bytes_cleared:
  "inputPath \<noteq> outputPath
   \<Longrightarrow> source_bytes (cleared outputPath s) inputPath = source_bytes s inputPath"
  by (simp add: source_bytes_def readFile_cleared)

lemma attempt_source: 
  "attempt e g strat inputPath outputPath s
     = render e g (strategy_args strat outputPath inputPath) (source_bytes s inputPath)"
  by (simp add: attempt_def source_bytes_def)

lemma after_attempt_input:
  assumes "inputPath \<noteq> outputPath"
  shows "readFile (after_attempt e g strat inputPath outputPath s) inputPath = readFile s inputPath"
  using assms
  by (simp add: after_attempt_def readFile_runGs readFile_cleared split: option.splits)

lemma after_attempt_output:
  assumes "inputPath \<noteq> outputPath"
  shows "readFile (after_attempt e g strat inputPath outputPath s) outputPath
       = (case snd (attempt e g strat inputPath outputPath s) of
            None \<Rightarrow> Inl ENOENT | Some b \<Rightarrow> Inr b)"
  using assms
  by (simp add: after_attempt_def readFile_runGs readFile_cleared attempt_source
      source_bytes_cleared split: option.splits)

lemma after_attempt_trace:
  "trace (after_attempt e g strat inputPath outputPath s)
     = trace s @ [RunGs (strategy_args strat outputPath inputPath)]"
  by (simp only: after_attempt_def trace_runGs trace_cleared)

lemma attempt_after_attempt:
  "inputPath \<noteq> outputPath
   \<Longrightarrow> attempt e g strat' inputPath outputPath (after_attempt e g strat inputPath outputPath s)
       = attempt e g strat' inputPath outputPath s"
  by (simp add: attempt_def after_attempt_input)

lemma statSync_readFile:
  "statSync s p = (case readFile s p of Inl err \<Rightarrow> Inl ENOENT | Inr b \<Rightarrow> statSync s p)"
  "statSync s p = Inr st \<Longrightarrow> readFile s p = Inr (content st)"
  by (auto simp: statSync_def readFile_def split: option.splits)

lemma try_strategies_step:
  assumes ne: "inputPath \<noteq> outputPath"
  shows "try_strategies e g (strat # rest) inputPath outputPath tb s
     = (if meets (attempt e g strat inputPath outputPath s) tb
        then (True, after_attempt e g strat inputPath outputPath s)
        else try_strategies e g rest inputPath outputPath tb
               (after_attempt e g strat inputPath outputPath s))"
proof -
  let ?argv = "strategy_args strat outputPath inputPath"
  let ?s1 = "cleared outputPath s"
  let ?s2 = "after_attempt e g strat inputPath outputPath s"
  let ?ran = "attempt e g strat inputPath outputPath s"
  have run: "runGs e g ?argv inputPath outputPath ?s1
      = (if fst ?ran = Closed 0 then Inr () else Inl GsError, ?s2)"
    using ne
    by (simp add: prod_eq_iff fst_runGs after_attempt_def attempt_source source_bytes_cleared)
  have out: "readFile ?s2 outputPath = (case snd ?ran of None \<Rightarrow> Inl ENOENT | Some b \<Rightarrow> Inr b)"
    using ne by (rule after_attempt_output)
  show ?thesis
  proof (cases "fst ?ran = Closed 0")
    case False
    then show ?thesis
      by (simp add: unlink_cleared run meets_def)
  next
    case True
    show ?thesis
    proof (cases "snd ?ran")
      case None
      with out have "statSync ?s2 outputPath = Inl ENOENT"
        by (simp add: statSync_def readFile_def split: option.splits)
      with True None show ?thesis
        by (simp add: unlink_cleared run meets_def)
    next
      case (Some b)
      with out obtain st where "statSync ?s2 outputPath = Inr st" "content st = b"
        by (auto simp: statSync_def readFile_def split: option.splits)
      with True Some show ?thesis
        by (simp add: unlink_cleared run meets_def)
    qed
  qed
qed

lemma ladder_first_fit:
  assumes ne: "inputPath \<noteq> outputPath"
  shows "\<forall>st \<in> set pre. \<not> meets (attempt e g st inputPath outputPath s) tb
     \<Longrightarrow> meets (attempt e g strat inputPath outputPath s) tb
     \<Longrightarrow> \<exists>s'. try_strategies e g (pre @ strat # post) inputPath outputPath tb s = (True, s')
            \<and> readFile s' outputPath
                = (case snd (attempt e g strat inputPath outputPath s) of
                     None \<Rightarrow> Inl ENOENT | Some b \<Rightarrow> Inr b)
            \<and> trace s' = trace s @ map (\<lambda>st. RunGs (strategy_args st outputPath inputPath))
                                      (pre @ [strat])"
proof (induction pre arbitrary: s)
  case Nil
  then show ?case
    using ne
    by (simp add: try_strategies_step after_attempt_output after_attempt_trace
        del: try_strategies.simps(2))
next
  case (Cons p pre)
  let ?s2 = "after_attempt e g p inputPath outputPath s"
  have same: "attempt e g st inputPath outputPath ?s2 = attempt e g st inputPath outputPath s"
    for st using ne by (rule attempt_after_attempt)
  from Cons.prems have "\<forall>st \<in> set pre. \<not> meets (attempt e g st inputPath outputPath ?s2) tb"
    and "meets (attempt e g strat inputPath outputPath ?s2) tb"
    by (simp_all add: same)
  from Cons.IH [OF this] obtain s' where
    "try_strategies e g (pre @ strat # post) inputPath outputPath tb ?s2 = (True, s')"
    "readFile s' outputPath
       = (case snd (attempt e g strat inputPath outputPath s) of
            None \<Rightarrow> Inl ENOENT | Some b \<Rightarrow> Inr b)"
    "trace s' = trace ?s2 @ map (\<lambda>st. RunGs (strategy_args st outputPath inputPath))
                              (pre @ [strat])"
    by (auto simp: same)
  with Cons.prems show ?case
    using ne by (simp add: try_strategies_step after_attempt_trace del: try_strategies.simps(2))
qed

lemma ladder_none_fit:
  assumes ne: "inputPath \<noteq> outputPath"
  shows "\<forall>st \<in> set sts. \<not> meets (attempt e g st inputPath outputPath s) tb
     \<Longrightarrow> \<exists>s'. try_strategies e g sts inputPath outputPath tb s = (False, s')
            \<and> readFile s' inputPath = readFile s inputPath
            \<and> (sts \<noteq> [] \<longrightarrow> readFile s' outputPath
                  = (case snd (attempt e g (last sts) inputPath outputPath s) of
                       None \<Rightarrow> Inl ENOENT | Some b \<Rightarrow> Inr b))
            \<and> trace s' = trace s @ map (\<lambda>st. RunGs (strategy_args st outputPath inputPath)) sts"
proof (induction sts arbitrary: s)
  case Nil
  then show ?case by simp
next
  case (Cons p sts)
  let ?s2 = "after_attempt e g p inputPath outputPath s"
  have same: "attempt e g st inputPath outputPath ?s2 = attempt e g st inputPath outputPath s"
    for st using ne by (rule attempt_after_attempt)
  from Cons.prems have "\<forall>st \<in> set sts. \<not> meets (attempt e g st inputPath outputPath ?s2) tb"
    by (simp add: same)
  from Cons.IH [OF this] obtain s' where s':
    "try_strategies e g sts inputPath outputPath tb ?s2 = (False, s')"
    "readFile s' inputPath = readFile ?s2 inputPath"
    "sts \<noteq> [] \<longrightarrow> readFile s' outputPath
        = (case snd (attempt e g (last sts) inputPath outputPath s) of
             None \<Rightarrow> Inl ENOENT | Some b \<Rightarrow> Inr b)"
    "trace s' = trace ?s2 @ map (\<lambda>st. RunGs (strategy_args st outputPath inputPath)) sts"
    by (auto simp: same)
  show ?case
  proof (cases "sts = []")
    case True
    with Cons.prems show ?thesis
      using ne
      by (simp add: try_strategies_step after_attempt_trace after_attempt_input
          after_attempt_output del: try_strategies.simps(2))
  next
    case False
    with Cons.prems s' show ?thesis
      using ne
      by (simp add: try_strategies_step after_attempt_trace after_attempt_input
          del: try_strategies.simps(2))
  qed
qed


lemma existsSync_readFile: "existsSync s p = (\<exists>b. readFile s p = Inr b)"
  by (auto simp: existsSync_def readFile_def split: option.splits)

lemma upload_not_processed:
  "inputPath = Inside UPLOAD_DIR n
   \<Longrightarrow> inputPath \<noteq> path_join PROCESSED_DIR (basename inputPath)"
  by (simp add: path_join_entry)

lemma compressPdf_target:
  assumes "checkGhostscript e = Some g" and "truthy t"
  shows "compressPdf e inputPath outputDir (Some t) s
     = (case try_strategies e g strategies inputPath (path_join outputDir (basename inputPath))
               (times1024 t) s of
          (True, s1) \<Rightarrow> (Inr (path_join outputDir (basename inputPath)), s1)
        | (False, s1) \<Rightarrow>
            if \<not> existsSync s1 (path_join outputDir (basename inputPath))
            then copy_source inputPath (path_join outputDir (basename inputPath)) s1
            else (Inr (path_join outputDir (basename inputPath)), s1))"
  using assms by (simp add: compressPdf_def supplied_def Let_def)

text \<open>
  C6. With a target, the strategies run in the order ebook, screen, low-res, and the
  first one whose run closes with code 0 and leaves a file of at most
  \<^verbatim>\<open>targetSizeKB * 1024\<close> bytes ends the loop: \<^verbatim>\<open>compressPdf\<close> returns the output path with
  that file in it, and the engine has been run for exactly the strategies up to and
  including that one. When the first strategy is the one, the engine has run once.
\<close>

theorem pdf_ladder_first_fit:
  assumes gs: "checkGhostscript e = Some g"
    and t: "truthy t"
    and up: "inputPath = Inside UPLOAD_DIR n"
    and i: "i < length strategies"
    and earlier: "\<forall>j<i. \<not> meets (attempt e g (strategies ! j) inputPath
                                  (path_join PROCESSED_DIR (basename inputPath)) s) (times1024 t)"
    and fit: "meets (attempt e g (strategies ! i) inputPath
                       (path_join PROCESSED_DIR (basename inputPath)) s) (times1024 t)"
  shows "\<exists>s' b. compressPdf e inputPath PROCESSED_DIR (Some t) s
                  = (Inr (path_join PROCESSED_DIR (basename inputPath)), s')
      \<and> snd (attempt e g (strategies ! i) inputPath
                (path_join PROCESSED_DIR (basename inputPath)) s) = Some b
      \<and> readFile s' (path_join PROCESSED_DIR (basename inputPath)) = Inr b
      \<and> length_le (length b) (times1024 t)
      \<and> trace s' = trace s @ map (\<lambda>st. RunGs (strategy_args st
                                      (path_join PROCESSED_DIR (basename inputPath)) inputPath))
                                (take (Suc i) strategies)"
proof -
  let ?out = "path_join PROCESSED_DIR (basename inputPath)"
  from up have ne: "inputPath \<noteq> ?out" by (rule upload_not_processed)
  from i have split: "strategies = take i strategies @ strategies ! i # drop (Suc i) strategies"
    by (rule id_take_nth_drop)
  have pre: "\<forall>st \<in> set (take i strategies). \<not> meets (attempt e g st inputPath ?out s) (times1024 t)"
  proof
    fix st assume "st \<in> set (take i strategies)"
    then obtain j where "j < i" "st = strategies ! j"
      using i by (auto simp: in_set_conv_nth)
    with earlier show "\<not> meets (attempt e g st inputPath ?out s) (times1024 t)" by simp
  qed
  from ladder_first_fit [OF ne pre fit, of "drop (Suc i) strategies"] split
  obtain s' where s':
    "try_strategies e g strategies inputPath ?out (times1024 t) s = (True, s')"
    "readFile s' ?out = (case snd (attempt e g (strategies ! i) inputPath ?out s) of
                           None \<Rightarrow> Inl ENOENT | Some b \<Rightarrow> Inr b)"
    "trace s' = trace s @ map (\<lambda>st. RunGs (strategy_args st ?out inputPath))
                              (take i strategies @ [strategies ! i])"
    by auto
  from fit obtain b where b: "snd (attempt e g (strategies ! i) inputPath ?out s) = Some b"
    "length_le (length b) (times1024 t)"
    by (auto simp: meets_def split: option.splits)
  from i have "take (Suc i) strategies = take i strategies @ [strategies ! i]"
    by (rule take_Suc_conv_app_nth)
  with s' b show ?thesis
    by (simp add: compressPdf_target [OF gs t])
qed

lemma demo_gs: "checkGhostscript demo_engine = Some ''gs''"
  by (simp add: checkGhostscript_def demo_engine_def)

lemma demo_attempts:
  "attempt demo_engine ''gs'' (strategies ! 0) (Inside UPLOAD_DIR (entry_named ''d.pdf'')) (Inside PROCESSED_DIR (entry_named ''d.pdf''))
     demo_pdf_world = (Closed 0, Some (replicate 3000 0))"
  "attempt demo_engine ''gs'' (strategies ! 1) (Inside UPLOAD_DIR (entry_named ''d.pdf'')) (Inside PROCESSED_DIR (entry_named ''d.pdf''))
     demo_pdf_world = (Closed 0, Some (replicate 2000 0))"
  "attempt demo_engine ''gs'' (strategies ! 2) (Inside UPLOAD_DIR (entry_named ''d.pdf'')) (Inside PROCESSED_DIR (entry_named ''d.pdf''))
     demo_pdf_world = (Closed 1, None)"
  by (simp_all add: attempt_def demo_engine_def strategies_def strategy_args_def path_string_def
      path_eval)

lemma demo_paths:
  "path_join PROCESSED_DIR (basename (Inside UPLOAD_DIR (entry_named ''d.pdf''))) = (Inside PROCESSED_DIR (entry_named ''d.pdf''))"
  by (simp add: path_eval)

lemma demo_argv:
  "strategy_args (strategies ! 0) (Inside PROCESSED_DIR (entry_named ''d.pdf'')) (Inside UPLOAD_DIR (entry_named ''d.pdf''))
     = [''-sDEVICE=pdfwrite'', ''-dCompatibilityLevel=1.4'', ''-dPDFSETTINGS=/ebook'',
        ''-dNOPAUSE'', ''-dQUIET'', ''-dBATCH'',
        ''-sOutputFile=/app/temp/processed/d.pdf'', ''/app/temp/uploads/d.pdf'']"
  by (simp add: strategies_def strategy_args_def path_string_def path_eval)

theorem pdf_ladder_first_fit_witness:
  "meets (attempt demo_engine ''gs'' (strategies ! 0) (Inside UPLOAD_DIR (entry_named ''d.pdf''))
            (Inside PROCESSED_DIR (entry_named ''d.pdf'')) demo_pdf_world) (times1024 (Fin 3))
   \<and> (\<exists>s'. compressPdf demo_engine (Inside UPLOAD_DIR (entry_named ''d.pdf'')) PROCESSED_DIR (Some (Fin 3))
               demo_pdf_world = (Inr (Inside PROCESSED_DIR (entry_named ''d.pdf'')), s')
          \<and> readFile s' (Inside PROCESSED_DIR (entry_named ''d.pdf'')) = Inr (replicate 3000 0)
          \<and> trace s' =
              [RunGs [''-sDEVICE=pdfwrite'', ''-dCompatibilityLevel=1.4'', ''-dPDFSETTINGS=/ebook'',
                      ''-dNOPAUSE'', ''-dQUIET'', ''-dBATCH'',
                      ''-sOutputFile=/app/temp/processed/d.pdf'', ''/app/temp/uploads/d.pdf'']])"
proof -
  have t: "truthy (Fin 3)" by simp
  have up: "Inside UPLOAD_DIR (entry_named ''d.pdf'') = Inside UPLOAD_DIR (entry_named ''d.pdf'')"
    by simp
  have i: "0 < length strategies" by (simp add: strategies_def)
  have fit: "meets (attempt demo_engine ''gs'' (strategies ! 0) (Inside UPLOAD_DIR (entry_named ''d.pdf''))
            (Inside PROCESSED_DIR (entry_named ''d.pdf'')) demo_pdf_world) (times1024 (Fin 3))"
    by (simp add: demo_attempts meets_def)
  have first: "take (Suc 0) strategies = [strategies ! 0]"
    by (simp add: strategies_def)
  have start: "trace demo_pdf_world = []"
    by (simp add: demo_pdf_world_def)
  from pdf_ladder_first_fit [OF demo_gs t up i, of demo_pdf_world] fit
  obtain s' b where
    "compressPdf demo_engine (Inside UPLOAD_DIR (entry_named ''d.pdf'')) PROCESSED_DIR (Some (Fin 3)) demo_pdf_world
       = (Inr (Inside PROCESSED_DIR (entry_named ''d.pdf'')), s')"
    "Some (replicate 3000 0) = Some b"
    "readFile s' (Inside PROCESSED_DIR (entry_named ''d.pdf'')) = Inr b"
    "trace s' = trace demo_pdf_world
        @ map (\<lambda>st. RunGs (strategy_args st (Inside PROCESSED_DIR (entry_named ''d.pdf'')) (Inside UPLOAD_DIR (entry_named ''d.pdf''))))
            (take (Suc 0) strategies)"
    unfolding demo_paths demo_attempts by auto
  with fit show ?thesis
    by (simp add: first start demo_argv)
qed

text \<open>
  C7 as stated fails. With a target of 1 KB the example engine is run for all three
  strategies and none meets the target: ebook and screen close with code 0 and leave 3000
  and 2000 bytes, low-res exits with code 1 and leaves nothing. The last output
  produced is the 2000 bytes of screen, but line 195 has removed it before the low-res
  run, so \<^verbatim>\<open>compressPdf\<close> returns a copy of the 4000 bytes of the source.
\<close>

theorem pdf_last_output_counterexample:
  "attempt demo_engine ''gs'' (strategies ! 1) (Inside UPLOAD_DIR (entry_named ''d.pdf'')) (Inside PROCESSED_DIR (entry_named ''d.pdf''))
     demo_pdf_world = (Closed 0, Some (replicate 2000 0))
   \<and> attempt demo_engine ''gs'' (strategies ! 2) (Inside UPLOAD_DIR (entry_named ''d.pdf'')) (Inside PROCESSED_DIR (entry_named ''d.pdf''))
     demo_pdf_world = (Closed 1, None)
   \<and> fst (compressPdf demo_engine (Inside UPLOAD_DIR (entry_named ''d.pdf'')) PROCESSED_DIR (Some (Fin 1))
            demo_pdf_world) = Inr (Inside PROCESSED_DIR (entry_named ''d.pdf''))
   \<and> length (trace (snd (compressPdf demo_engine (Inside UPLOAD_DIR (entry_named ''d.pdf'')) PROCESSED_DIR
                            (Some (Fin 1)) demo_pdf_world))) = 3
   \<and> readFile (snd (compressPdf demo_engine (Inside UPLOAD_DIR (entry_named ''d.pdf'')) PROCESSED_DIR (Some (Fin 1))
                      demo_pdf_world)) (Inside PROCESSED_DIR (entry_named ''d.pdf'')) = Inr (replicate 4000 7)
   \<and> readFile (snd (compressPdf demo_engine (Inside UPLOAD_DIR (entry_named ''d.pdf'')) PROCESSED_DIR (Some (Fin 1))
                      demo_pdf_world)) (Inside PROCESSED_DIR (entry_named ''d.pdf'')) \<noteq> Inr (replicate 2000 0)"
proof -
  have run: "compressPdf demo_engine (Inside UPLOAD_DIR (entry_named ''d.pdf'')) PROCESSED_DIR (Some (Fin 1))
               demo_pdf_world
      = (Inr (Inside PROCESSED_DIR (entry_named ''d.pdf'')),
         \<lparr>files = [((Inside PROCESSED_DIR (entry_named ''d.pdf'')), \<lparr>content = replicate 4000 7, mtimeMs = 5\<rparr>),
                   ((Inside UPLOAD_DIR (entry_named ''d.pdf'')), \<lparr>content = replicate 4000 7, mtimeMs = 0\<rparr>)],
          clock = 5,
          trace = map (\<lambda>st. RunGs (strategy_args st (Inside PROCESSED_DIR (entry_named ''d.pdf''))
                                      (Inside UPLOAD_DIR (entry_named ''d.pdf'')))) strategies,
          pending = []\<rparr>)"
    by (simp add: compressPdf_def checkGhostscript_def supplied_def path_eval
        strategies_def runGs_def strategy_args_def path_string_def demo_engine_def
        demo_pdf_world_def readFile_def existsSync_def statSync_def unlink_def writeFileSync_def
        remove_entry_def copy_source_def copyFileSync_def)
  from demo_attempts(2,3) show ?thesis
    by (simp add: run readFile_def strategies_def)
qed

lemma trace_writeFileSync: "trace (writeFileSync p buf s) = trace s"
  by (simp add: writeFileSync_def)

text \<open>
  C7, amended. When no strategy meets the target, all three are run, and
  \<^verbatim>\<open>compressPdf\<close> returns the output path holding what the last strategy of the ladder
  (low-res) left there; when that run left no file, and so in particular when no run
  left any, the path holds a copy of the bytes of the source.
\<close>

theorem pdf_ladder_best_effort:
  assumes gs: "checkGhostscript e = Some g"
    and t: "truthy t"
    and up: "inputPath = Inside UPLOAD_DIR n"
    and none: "\<forall>st \<in> set strategies.
                 \<not> meets (attempt e g st inputPath (path_join PROCESSED_DIR (basename inputPath)) s)
                     (times1024 t)"
    and src: "readFile s inputPath = Inr bytes"
  shows "\<exists>s'. compressPdf e inputPath PROCESSED_DIR (Some t) s
                = (Inr (path_join PROCESSED_DIR (basename inputPath)), s')
      \<and> trace s' = trace s @ map (\<lambda>st. RunGs (strategy_args st
                                      (path_join PROCESSED_DIR (basename inputPath)) inputPath))
                                strategies
      \<and> readFile s' (path_join PROCESSED_DIR (basename inputPath))
          = Inr (case snd (attempt e g (last strategies) inputPath
                             (path_join PROCESSED_DIR (basename inputPath)) s) of
                   None \<Rightarrow> bytes | Some b \<Rightarrow> b)"
proof -
  let ?out = "path_join PROCESSED_DIR (basename inputPath)"
  let ?last = "snd (attempt e g (last strategies) inputPath ?out s)"
  from up have ne: "inputPath \<noteq> ?out" by (rule upload_not_processed)
  have nonempty: "strategies \<noteq> []" by (simp add: strategies_def)
  from ladder_none_fit [OF ne none] nonempty obtain s1 where s1:
    "try_strategies e g strategies inputPath ?out (times1024 t) s = (False, s1)"
    "readFile s1 inputPath = readFile s inputPath"
    "readFile s1 ?out = (case ?last of None \<Rightarrow> Inl ENOENT | Some b \<Rightarrow> Inr b)"
    "trace s1 = trace s @ map (\<lambda>st. RunGs (strategy_args st ?out inputPath)) strategies"
    by auto
  show ?thesis
  proof (cases ?last)
    case None
    with s1(3) have absent: "\<not> existsSync s1 ?out" by (simp add: existsSync_readFile)
    from s1(2) src have "copy_source inputPath ?out s1 = (Inr ?out, writeFileSync ?out bytes s1)"
      by (simp add: copy_source_def copyFileSync_def)
    with absent s1(1,4) None show ?thesis
      by (simp add: compressPdf_target [OF gs t] readFile_writeFileSync trace_writeFileSync)
  next
    case (Some b)
    with s1(3) have "existsSync s1 ?out" by (simp add: existsSync_readFile)
    with s1 Some show ?thesis
      by (simp add: compressPdf_target [OF gs t])
  qed
qed

theorem pdf_ladder_best_effort_witness:
  "\<not> meets (attempt demo_engine ''gs'' (strategies ! 0) (Inside UPLOAD_DIR (entry_named ''d.pdf''))
              (Inside PROCESSED_DIR (entry_named ''d.pdf'')) demo_pdf_world) (times1024 (Fin 1))
   \<and> \<not> meets (attempt demo_engine ''gs'' (strategies ! 1) (Inside UPLOAD_DIR (entry_named ''d.pdf''))
              (Inside PROCESSED_DIR (entry_named ''d.pdf'')) demo_pdf_world) (times1024 (Fin 1))
   \<and> \<not> meets (attempt demo_engine ''gs'' (strategies ! 2) (Inside UPLOAD_DIR (entry_named ''d.pdf''))
              (Inside PROCESSED_DIR (entry_named ''d.pdf'')) demo_pdf_world) (times1024 (Fin 1))
   \<and> readFile demo_pdf_world (Inside UPLOAD_DIR (entry_named ''d.pdf'')) = Inr (replicate 4000 7)
   \<and> (\<exists>s'. compressPdf demo_engine (Inside UPLOAD_DIR (entry_named ''d.pdf'')) PROCESSED_DIR (Some (Fin 1))
               demo_pdf_world = (Inr (Inside PROCESSED_DIR (entry_named ''d.pdf'')), s')
          \<and> readFile s' (Inside PROCESSED_DIR (entry_named ''d.pdf'')) = Inr (replicate 4000 7))"
proof -
  have t: "truthy (Fin 1)" by simp
  have up: "Inside UPLOAD_DIR (entry_named ''d.pdf'') = Inside UPLOAD_DIR (entry_named ''d.pdf'')"
    by simp
  have members: "set strategies = {strategies ! 0, strategies ! 1, strategies ! 2}"
    by (simp add: strategies_def)
  have none: "\<forall>st \<in> set strategies.
      \<not> meets (attempt demo_engine ''gs'' st (Inside UPLOAD_DIR (entry_named ''d.pdf''))
                (path_join PROCESSED_DIR (basename (Inside UPLOAD_DIR (entry_named ''d.pdf'')))) demo_pdf_world)
            (times1024 (Fin 1))"
    unfolding members demo_paths using demo_attempts by (simp add: meets_def)
  have src: "readFile demo_pdf_world (Inside UPLOAD_DIR (entry_named ''d.pdf'')) = Inr (replicate 4000 7)"
    by (simp add: demo_pdf_world_def readFile_def)
  have final: "last strategies = strategies ! 2"
    by (simp add: strategies_def)
  have each: "\<not> meets (attempt demo_engine ''gs'' (strategies ! 0) (Inside UPLOAD_DIR (entry_named ''d.pdf''))
              (Inside PROCESSED_DIR (entry_named ''d.pdf'')) demo_pdf_world) (times1024 (Fin 1))"
    "\<not> meets (attempt demo_engine ''gs'' (strategies ! 1) (Inside UPLOAD_DIR (entry_named ''d.pdf''))
              (Inside PROCESSED_DIR (entry_named ''d.pdf'')) demo_pdf_world) (times1024 (Fin 1))"
    "\<not> meets (attempt demo_engine ''gs'' (strategies ! 2) (Inside UPLOAD_DIR (entry_named ''d.pdf''))
              (Inside PROCESSED_DIR (entry_named ''d.pdf'')) demo_pdf_world) (times1024 (Fin 1))"
    using demo_attempts by (simp_all add: meets_def)
  from pdf_ladder_best_effort [OF demo_gs t up none src] src
  have "\<exists>s'. compressPdf demo_engine (Inside UPLOAD_DIR (entry_named ''d.pdf'')) PROCESSED_DIR (Some (Fin 1))
               demo_pdf_world = (Inr (Inside PROCESSED_DIR (entry_named ''d.pdf'')), s')
          \<and> readFile s' (Inside PROCESSED_DIR (entry_named ''d.pdf'')) = Inr (replicate 4000 7)"
    unfolding demo_paths final demo_attempts by auto
  with each src show ?thesis by blast
qed

end
